theory Spec2Isabelle
  imports Main "HOL-Library.Word"
begin

section \<open>SecretBallotBox: the ballot contract and the off-chain reveal task\<close>

text \<open>
  A shallow embedding of the Solidity contract \<^verbatim>\<open>SecretBallotBox\<close> and of the
  Hardhat task \<^verbatim>\<open>task:reveal-results\<close>. Solidity's \<^verbatim>\<open>uint256\<close>, \<^verbatim>\<open>uint32\<close>,
  \<^verbatim>\<open>uint8\<close> and \<^verbatim>\<open>address\<close> are words of that width. A transaction either returns
  the new contract state or an error; an error reverts, so the state stays as it was.
  The contract is compiled with Solidity 0.8, whose \<^verbatim>\<open>+\<close>, \<^verbatim>\<open>*\<close> and \<^verbatim>\<open>++\<close> on
  \<^verbatim>\<open>uint256\<close> revert with \<^verbatim>\<open>Panic(0x11)\<close> on overflow.
\<close>

subsection \<open>Values, errors and events\<close>

type_synonym uint256 = "256 word"
type_synonym uint32 = "32 word"
type_synonym uint8 = "8 word"
type_synonym address = "160 word"
type_synonym bytes = "8 word list"
type_synonym externalEuint8 = "256 word"

datatype error = Revert string | Panic nat | ProofVerificationError

text \<open>
  The names the specification gives to the contract's revert messages. Its ValidationError
  covers a bad candidate count, a non-positive duration and an out-of-range candidate index.
\<close>

abbreviation NotFoundError :: error where
  "NotFoundError \<equiv> Revert ''Ballot does not exist''"
abbreviation StillActiveError :: error where
  "StillActiveError \<equiv> Revert ''Ballot is still active''"
abbreviation DuplicateVoteError :: error where
  "DuplicateVoteError \<equiv> Revert ''Already voted''"
abbreviation AlreadyRevealedError :: error where
  "AlreadyRevealedError \<equiv> Revert ''Results already revealed''"
abbreviation NotRevealedError :: error where
  "NotRevealedError \<equiv> Revert ''Results not yet revealed''"

definition ValidationError :: "error \<Rightarrow> bool" where
  "ValidationError e =
     (e = Revert ''At least 2 candidates required'' \<or>
      e = Revert ''Maximum 10 candidates allowed'' \<or>
      e = Revert ''Duration must be positive'' \<or>
      e = Revert ''Invalid candidate index'')"

datatype event =
    BallotCreated uint256 string address uint256
  | VoteCast uint256 address
  | ResultsRevealed uint256 "uint256 list"

subsection \<open>The encryption service\<close>

text \<open>
  Modelled from the spec: the FHE library (\<^verbatim>\<open>@fhevm/solidity/lib/FHE.sol\<close>) is an
  external collaborator. An EncryptedCounter is "an opaque ciphertext handle representing
  an unsigned 32-bit accumulator" that supports "add plaintext constant" and "grant read
  permission to principal". A handle is modelled by the plaintext it hides and the
  principals that may decrypt it; a storage slot never written holds the zero handle.
\<close>

datatype principal = This | Account address

datatype euint32 = ZeroHash | Ciphertext uint32 "principal set"

fun FHE_plain :: "euint32 \<Rightarrow> uint32" where
  "FHE_plain ZeroHash = 0"
| "FHE_plain (Ciphertext v ps) = v"

definition FHE_asEuint32 :: "uint32 \<Rightarrow> euint32" where
  "FHE_asEuint32 v = Ciphertext v {}"

definition FHE_add :: "euint32 \<Rightarrow> euint32 \<Rightarrow> euint32" where
  "FHE_add a b = Ciphertext (FHE_plain a + FHE_plain b) {}"

fun FHE_allow :: "euint32 \<Rightarrow> principal \<Rightarrow> euint32" where
  "FHE_allow ZeroHash p = ZeroHash"
| "FHE_allow (Ciphertext v ps) p = Ciphertext v (insert p ps)"

definition FHE_allowThis :: "euint32 \<Rightarrow> euint32" where
  "FHE_allowThis h = FHE_allow h This"

text \<open>
  \<^verbatim>\<open>FHE.fromExternal\<close> checks the input proof of an externally encrypted value and
  reverts when the proof is wrong. It is a parameter of the model: it returns the hidden
  plaintext index when the proof verifies and \<open>None\<close> when it does not.
\<close>

type_synonym fromExternal = "externalEuint8 \<Rightarrow> bytes \<Rightarrow> uint8 option"

subsection \<open>Contract storage\<close>

record ballot =
  title :: string
  candidates :: "string list"
  endTime :: uint256
  isActive :: bool
  resultsRevealed :: bool
  creator :: address
  totalVotes :: uint256
  encryptedVotes :: "uint256 \<Rightarrow> euint32"
  finalResults :: "uint256 \<Rightarrow> uint32"
  hasVoted :: "address \<Rightarrow> bool"

record contract =
  ballotCounter :: uint256
  ballots :: "uint256 \<Rightarrow> ballot"
  events :: "event list"

record env =
  msg_sender :: address
  block_timestamp :: uint256

text \<open>Storage that was never written reads as zero.\<close>

definition empty_ballot :: ballot where
  "empty_ballot = \<lparr>title = [], candidates = [], endTime = 0, isActive = False,
     resultsRevealed = False, creator = 0, totalVotes = 0,
     encryptedVotes = (\<lambda>_. ZeroHash), finalResults = (\<lambda>_. 0), hasVoted = (\<lambda>_. False)\<rparr>"

definition deployed :: contract where
  "deployed = \<lparr>ballotCounter = 0, ballots = (\<lambda>_. empty_ballot), events = []\<rparr>"

subsection \<open>Control structure\<close>

text \<open>\<^verbatim>\<open>for (uint256 i = lo; i < n; i++) body\<close>, threading the variables the body writes.\<close>

function for_loop :: "nat \<Rightarrow> nat \<Rightarrow> (nat \<Rightarrow> 'a \<Rightarrow> 'a) \<Rightarrow> 'a \<Rightarrow> 'a" where
  "for_loop i n body x = (if i < n then for_loop (Suc i) n body (body i x) else x)"
  by pat_completeness auto
termination
  by (relation "measure (\<lambda>(i, n, body, x). n - i)") auto

declare for_loop.simps [simp del]

text \<open>A modifier or a \<^verbatim>\<open>require\<close>: run the rest only when the check passes.\<close>

definition require :: "bool \<Rightarrow> string \<Rightarrow> error + 'a \<Rightarrow> error + 'a" where
  "require c msg k = (if c then k else Inl (Revert msg))"

definition checked_add :: "uint256 \<Rightarrow> uint256 \<Rightarrow> uint256 option" where
  "checked_add a b = (if uint a + uint b < 2 ^ 256 then Some (a + b) else None)"

definition checked_mul :: "uint256 \<Rightarrow> uint256 \<Rightarrow> uint256 option" where
  "checked_mul a b = (if uint a * uint b < 2 ^ 256 then Some (a * b) else None)"

definition ballotExists :: "contract \<Rightarrow> uint256 \<Rightarrow> error + 'a \<Rightarrow> error + 'a" where
  "ballotExists s ballotId k = require (ballotId < ballotCounter s) ''Ballot does not exist'' k"

definition ballotActive :: "env \<Rightarrow> contract \<Rightarrow> uint256 \<Rightarrow> error + 'a \<Rightarrow> error + 'a" where
  "ballotActive e s ballotId k =
     require (isActive (ballots s ballotId)) ''Ballot is not active''
       (require (block_timestamp e < endTime (ballots s ballotId)) ''Ballot has ended'' k)"

definition ballotEnded :: "env \<Rightarrow> contract \<Rightarrow> uint256 \<Rightarrow> error + 'a \<Rightarrow> error + 'a" where
  "ballotEnded e s ballotId k =
     require (block_timestamp e \<ge> endTime (ballots s ballotId)) ''Ballot is still active'' k"

definition hasNotVoted :: "env \<Rightarrow> contract \<Rightarrow> uint256 \<Rightarrow> error + 'a \<Rightarrow> error + 'a" where
  "hasNotVoted e s ballotId k =
     require (\<not> hasVoted (ballots s ballotId) (msg_sender e)) ''Already voted'' k"

subsection \<open>Transactions\<close>

definition createBallot ::
  "env \<Rightarrow> string \<Rightarrow> string list \<Rightarrow> uint256 \<Rightarrow> contract \<Rightarrow> error + (uint256 \<times> contract)" where
  "createBallot e ttl cands durationMinutes s =
     require (length cands \<ge> 2) ''At least 2 candidates required''
    (require (length cands \<le> 10) ''Maximum 10 candidates allowed''
    (require (durationMinutes > 0) ''Duration must be positive''
    (case checked_add (ballotCounter s) 1 of
       None \<Rightarrow> Inl (Panic 0x11)
     | Some counter' \<Rightarrow>
        let ballotId = ballotCounter s;
            b1 = (ballots s ballotId)\<lparr>title := ttl\<rparr>;
            b2 = b1\<lparr>candidates := for_loop 0 (length cands)
                   (\<lambda>i cs. cs @ [cands ! i]) (candidates b1)\<rparr>
        in (case checked_mul durationMinutes 60 of
              None \<Rightarrow> Inl (Panic 0x11)
            | Some secs \<Rightarrow>
               (case checked_add (block_timestamp e) secs of
                  None \<Rightarrow> Inl (Panic 0x11)
                | Some t \<Rightarrow>
                   let b3 = b2\<lparr>endTime := t, isActive := True, resultsRevealed := False,
                              creator := msg_sender e, totalVotes := 0\<rparr>;
                       b4 = b3\<lparr>encryptedVotes := for_loop 0 (length cands)
                              (\<lambda>i ev. ev(of_nat i := FHE_allowThis (FHE_asEuint32 0)))
                              (encryptedVotes b3)\<rparr>
                   in Inr (ballotId,
                        s\<lparr>ballotCounter := counter',
                          ballots := (ballots s)(ballotId := b4),
                          events := events s @
                            [BallotCreated ballotId ttl (msg_sender e) (endTime b4)]\<rparr>))))))"

definition vote :: "env \<Rightarrow> uint256 \<Rightarrow> uint8 \<Rightarrow> contract \<Rightarrow> error + contract" where
  "vote e ballotId candidateIndex s =
     ballotExists s ballotId
    (ballotActive e s ballotId
    (hasNotVoted e s ballotId
    (let b = ballots s ballotId in
     require (unat candidateIndex < length (candidates b)) ''Invalid candidate index''
    (let k = ucast candidateIndex;
         c1 = FHE_add (encryptedVotes b k) (FHE_asEuint32 1);
         c2 = FHE_allowThis c1;
         c3 = FHE_allow c2 (Account (msg_sender e))
     in (case checked_add (totalVotes b) 1 of
           None \<Rightarrow> Inl (Panic 0x11)
         | Some total' \<Rightarrow>
            Inr (s\<lparr>ballots := (ballots s)(ballotId :=
                      b\<lparr>encryptedVotes := (encryptedVotes b)(k := c3),
                        hasVoted := (hasVoted b)(msg_sender e := True),
                        totalVotes := total'\<rparr>),
                   events := events s @ [VoteCast ballotId (msg_sender e)]\<rparr>))))))"

definition voteEncrypted ::
  "fromExternal \<Rightarrow> env \<Rightarrow> uint256 \<Rightarrow> externalEuint8 \<Rightarrow> bytes \<Rightarrow> contract \<Rightarrow> error + contract" where
  "voteEncrypted fhe e ballotId encryptedCandidateIndex inputProof s =
     ballotExists s ballotId
    (ballotActive e s ballotId
    (hasNotVoted e s ballotId
    (let b = ballots s ballotId in
     (case fhe encryptedCandidateIndex inputProof of
        None \<Rightarrow> Inl ProofVerificationError
      | Some _ \<Rightarrow>
         let c1 = FHE_add (encryptedVotes b 0) (FHE_asEuint32 1);
             c2 = FHE_allowThis c1;
             c3 = FHE_allow c2 (Account (msg_sender e))
         in (case checked_add (totalVotes b) 1 of
               None \<Rightarrow> Inl (Panic 0x11)
             | Some total' \<Rightarrow>
                Inr (s\<lparr>ballots := (ballots s)(ballotId :=
                          b\<lparr>encryptedVotes := (encryptedVotes b)(0 := c3),
                            hasVoted := (hasVoted b)(msg_sender e := True),
                            totalVotes := total'\<rparr>),
                       events := events s @ [VoteCast ballotId (msg_sender e)]\<rparr>))))))"

definition setResults :: "env \<Rightarrow> uint256 \<Rightarrow> uint256 list \<Rightarrow> contract \<Rightarrow> error + contract" where
  "setResults e ballotId results s =
     ballotExists s ballotId
    (ballotEnded e s ballotId
    (let b = ballots s ballotId in
     require (\<not> resultsRevealed b) ''Results already revealed''
    (require (length results = length (candidates b)) ''Invalid results length''
    (let b1 = b\<lparr>finalResults := for_loop 0 (length results)
                (\<lambda>i fr. fr(of_nat i := ucast (results ! i))) (finalResults b)\<rparr>
     in Inr (s\<lparr>ballots := (ballots s)(ballotId := b1\<lparr>resultsRevealed := True\<rparr>),
              events := events s @ [ResultsRevealed ballotId results]\<rparr>)))))"

subsection \<open>Views\<close>

definition getEncryptedVoteCount :: "contract \<Rightarrow> uint256 \<Rightarrow> uint256 \<Rightarrow> error + euint32" where
  "getEncryptedVoteCount s ballotId candidateIndex =
     ballotExists s ballotId
    (require (unat candidateIndex < length (candidates (ballots s ballotId)))
       ''Invalid candidate index''
       (Inr (encryptedVotes (ballots s ballotId) candidateIndex)))"

record ballotInfo =
  info_title :: string
  info_candidates :: "string list"
  info_endTime :: uint256
  info_isActive :: bool
  info_resultsRevealed :: bool
  info_creator :: address
  info_totalVotes :: uint256

definition getBallotInfo :: "env \<Rightarrow> contract \<Rightarrow> uint256 \<Rightarrow> error + ballotInfo" where
  "getBallotInfo e s ballotId =
     ballotExists s ballotId
    (let b = ballots s ballotId in
     Inr \<lparr>info_title = title b, info_candidates = candidates b, info_endTime = endTime b,
          info_isActive = (isActive b \<and> block_timestamp e < endTime b),
          info_resultsRevealed = resultsRevealed b, info_creator = creator b,
          info_totalVotes = totalVotes b\<rparr>)"

definition getResults :: "contract \<Rightarrow> uint256 \<Rightarrow> error + uint256 list" where
  "getResults s ballotId =
     ballotExists s ballotId
    (let b = ballots s ballotId in
     require (resultsRevealed b) ''Results not yet revealed''
    (Inr (for_loop 0 (length (candidates b))
            (\<lambda>i results. results[i := ucast (finalResults b (of_nat i))])
            (replicate (length (candidates b)) 0))))"

definition hasVotedOf :: "contract \<Rightarrow> uint256 \<Rightarrow> address \<Rightarrow> error + bool" where
  "hasVotedOf s ballotId voter = ballotExists s ballotId (Inr (hasVoted (ballots s ballotId) voter))"

definition getTotalBallots :: "contract \<Rightarrow> uint256" where
  "getTotalBallots s = ballotCounter s"

text \<open>
  The two listing views count the matching ballots, allocate an array of that size and
  fill it in a second pass. A write past the end of the array would revert with
  \<^verbatim>\<open>Panic(0x32)\<close>.
\<close>

definition count_pass :: "nat \<Rightarrow> (nat \<Rightarrow> bool) \<Rightarrow> nat" where
  "count_pass n cond = for_loop 0 n (\<lambda>i c. if cond i then Suc c else c) 0"

definition fill_pass :: "nat \<Rightarrow> (nat \<Rightarrow> bool) \<Rightarrow> uint256 list \<Rightarrow> error + (uint256 list \<times> nat)" where
  "fill_pass n cond arr =
     for_loop 0 n
       (\<lambda>i acc. case acc of
            Inl err \<Rightarrow> Inl err
          | Inr (ids, index) \<Rightarrow>
              if cond i
              then (if index < length ids then Inr (ids[index := of_nat i], Suc index)
                    else Inl (Panic 0x32))
              else Inr (ids, index))
       (Inr (arr, 0))"

definition active_at :: "env \<Rightarrow> contract \<Rightarrow> nat \<Rightarrow> bool" where
  "active_at e s i =
     (isActive (ballots s (of_nat i)) \<and> block_timestamp e < endTime (ballots s (of_nat i)))"

definition ended_at :: "env \<Rightarrow> contract \<Rightarrow> nat \<Rightarrow> bool" where
  "ended_at e s i = (block_timestamp e \<ge> endTime (ballots s (of_nat i)))"

definition getActiveBallots :: "env \<Rightarrow> contract \<Rightarrow> error + uint256 list" where
  "getActiveBallots e s =
     (let activeCount = count_pass (unat (ballotCounter s)) (active_at e s)
      in map_sum id fst
           (fill_pass (unat (ballotCounter s)) (active_at e s) (replicate activeCount 0)))"

definition getEndedBallots :: "env \<Rightarrow> contract \<Rightarrow> error + uint256 list" where
  "getEndedBallots e s =
     (let endedCount = count_pass (unat (ballotCounter s)) (ended_at e s)
      in map_sum id fst
           (fill_pass (unat (ballotCounter s)) (ended_at e s) (replicate endedCount 0)))"

subsection \<open>The ledger\<close>

text \<open>
  Transactions are serialized. One that fails reverts and leaves the contract as it was.
  The reachable states are those a list of transactions produces from the deployed contract.
\<close>

datatype call =
    CreateBallot string "string list" uint256
  | Vote uint256 uint8
  | VoteEncrypted uint256 externalEuint8 bytes
  | SetResults uint256 "uint256 list"

fun exec :: "fromExternal \<Rightarrow> env \<Rightarrow> call \<Rightarrow> contract \<Rightarrow> error + contract" where
  "exec fhe e (CreateBallot ttl cands d) s = map_sum id snd (createBallot e ttl cands d s)"
| "exec fhe e (Vote ballotId candidateIndex) s = vote e ballotId candidateIndex s"
| "exec fhe e (VoteEncrypted ballotId x proof) s = voteEncrypted fhe e ballotId x proof s"
| "exec fhe e (SetResults ballotId results) s = setResults e ballotId results s"

definition apply_tx :: "fromExternal \<Rightarrow> contract \<Rightarrow> env \<times> call \<Rightarrow> contract" where
  "apply_tx fhe s tx = (case exec fhe (fst tx) (snd tx) s of Inl _ \<Rightarrow> s | Inr s' \<Rightarrow> s')"

fun run :: "fromExternal \<Rightarrow> contract \<Rightarrow> (env \<times> call) list \<Rightarrow> contract" where
  "run fhe s [] = s"
| "run fhe s (tx # txs) = run fhe (apply_tx fhe s tx) txs"

subsection \<open>The off-chain reveal task\<close>

text \<open>
  \<^verbatim>\<open>task:reveal-results\<close> reads the ballot, asks the encryption service to decrypt each
  candidate's counter and commits the array with \<^verbatim>\<open>setResults\<close>. The decryption
  request \<^verbatim>\<open>fhevm.userDecryptEuint\<close> is a parameter: \<open>None\<close> when it throws.
\<close>

type_synonym userDecrypt = "euint32 \<Rightarrow> uint256 option"

definition decrypt_counts ::
  "userDecrypt \<Rightarrow> contract \<Rightarrow> uint256 \<Rightarrow> nat \<Rightarrow> error + uint256 list" where
  "decrypt_counts dec s ballotId n =
     for_loop 0 n
       (\<lambda>i acc. case acc of
            Inl err \<Rightarrow> Inl err
          | Inr results \<Rightarrow>
             (case getEncryptedVoteCount s ballotId (of_nat i) of
                Inl err \<Rightarrow> Inl err
              | Inr encryptedVoteCount \<Rightarrow>
                 if encryptedVoteCount = ZeroHash then Inr (results @ [0])
                 else (case dec encryptedVoteCount of
                         Some clearVoteCount \<Rightarrow> Inr (results @ [clearVoteCount])
                       | None \<Rightarrow> Inr (results @ [0]))))
       (Inr [])"

definition reveal_results :: "userDecrypt \<Rightarrow> env \<Rightarrow> uint256 \<Rightarrow> contract \<Rightarrow> error + contract" where
  "reveal_results dec e ballotId s =
     (case getBallotInfo e s ballotId of
        Inl err \<Rightarrow> Inl err
      | Inr info \<Rightarrow>
         (case decrypt_counts dec s ballotId (length (info_candidates info)) of
            Inl err \<Rightarrow> Inl err
          | Inr results \<Rightarrow> setResults e ballotId results s))"

subsection \<open>Closed forms and invariants used in the proofs\<close>

definition created_ballot :: "env \<Rightarrow> string \<Rightarrow> string list \<Rightarrow> uint256 \<Rightarrow> ballot \<Rightarrow> ballot" where
  "created_ballot e ttl cands d b0 =
     b0\<lparr>title := ttl, candidates := candidates b0 @ cands,
        endTime := block_timestamp e + d * 60, isActive := True, resultsRevealed := False,
        creator := msg_sender e, totalVotes := 0,
        encryptedVotes := (\<lambda>k. if unat k < length cands then Ciphertext 0 {This}
                                else encryptedVotes b0 k)\<rparr>"

definition create_overflows :: "env \<Rightarrow> uint256 \<Rightarrow> contract \<Rightarrow> bool" where
  "create_overflows e d s =
     (\<not> uint (ballotCounter s) + 1 < 2 ^ 256 \<or> \<not> uint d * 60 < 2 ^ 256 \<or>
      \<not> uint (block_timestamp e) + uint d * 60 < 2 ^ 256)"

text \<open>What every reachable state satisfies.\<close>

definition wf :: "contract \<Rightarrow> bool" where
  "wf s = (\<forall>b. (b < ballotCounter s \<longrightarrow>
                   isActive (ballots s b) \<and> 2 \<le> length (candidates (ballots s b)) \<and>
                   length (candidates (ballots s b)) \<le> 10) \<and>
                (\<not> b < ballotCounter s \<longrightarrow> ballots s b = empty_ballot))"

fun revealEvents :: "event list \<Rightarrow> uint256 \<Rightarrow> uint256 list list" where
  "revealEvents [] b = []"
| "revealEvents (ResultsRevealed b' rs # evs) b =
     (if b' = b then rs # revealEvents evs b else revealEvents evs b)"
| "revealEvents (ev # evs) b = revealEvents evs b"

definition reveal_inv :: "contract \<Rightarrow> bool" where
  "reveal_inv s =
     (\<forall>b. if resultsRevealed (ballots s b)
          then \<exists>rs. revealEvents (events s) b = [rs] \<and>
                    length rs = length (candidates (ballots s b)) \<and>
                    (\<forall>i < length rs. finalResults (ballots s b) (of_nat i) = ucast (rs ! i))
          else revealEvents (events s) b = [])"

text \<open>
  The plaintexts of a ballot's encrypted counters, summed over its candidates. While
  fewer than \<open>2^32\<close> votes were cast, no counter has wrapped and the sum is
  \<open>totalVotes\<close>.
\<close>

definition counters_sum :: "ballot \<Rightarrow> nat" where
  "counters_sum b =
     sum_list (map (\<lambda>i. unat (FHE_plain (encryptedVotes b (of_nat i))))
                 [0..<length (candidates b)])"

definition tally_inv :: "contract \<Rightarrow> bool" where
  "tally_inv s =
     (\<forall>b. b < ballotCounter s \<longrightarrow> unat (totalVotes (ballots s b)) < 2 ^ 32 \<longrightarrow>
          counters_sum (ballots s b) = unat (totalVotes (ballots s b)))"

text \<open>What the reveal task enters for one candidate.\<close>

definition decrypted_or_zero :: "userDecrypt \<Rightarrow> euint32 \<Rightarrow> uint256" where
  "decrypted_or_zero dec h =
     (if h = ZeroHash then 0 else case dec h of Some clearVoteCount \<Rightarrow> clearVoteCount | None \<Rightarrow> 0)"

subsection \<open>A worked scenario\<close>

text \<open>
  The specification's scenario: account 1 creates the ballot "Election" with candidates
  Alice, Bob and Charlie for 60 minutes at time 0, so it ends at 3600; account 2 votes
  at time 10; account 3 commits results at 3600. The encryption service here accepts
  every proof and reads the index from the low byte of the external handle.
\<close>

definition accept_all :: fromExternal where "accept_all = (\<lambda>x p. Some (ucast x))"
definition at_time :: "address \<Rightarrow> uint256 \<Rightarrow> env" where
  "at_time a t = \<lparr>msg_sender = a, block_timestamp = t\<rparr>"

definition tx_create :: "env \<times> call" where
  "tx_create = (at_time 1 0, CreateBallot ''Election'' [''Alice'', ''Bob'', ''Charlie''] 60)"
definition tx_vote :: "env \<times> call" where
  "tx_vote = (at_time 2 10, Vote 0 1)"
definition tx_voteEncrypted :: "env \<times> call" where
  "tx_voteEncrypted = (at_time 2 10, VoteEncrypted 0 2 [])"
definition tx_reveal :: "env \<times> call" where
  "tx_reveal = (at_time 3 3600, SetResults 0 [5, 7, 0])"

definition s_created :: contract where "s_created = run accept_all deployed [tx_create]"
definition s_voted :: contract where "s_voted = run accept_all deployed [tx_create, tx_vote]"
definition s_voted_encrypted :: contract where
  "s_voted_encrypted = run accept_all deployed [tx_create, tx_voteEncrypted]"
definition s_revealed :: contract where "s_revealed = run accept_all deployed [tx_create, tx_reveal]"

definition tx_reveal_wide :: "env \<times> call" where
  "tx_reveal_wide = (at_time 3 3600, SetResults 0 [4294967301, 7, 0])"
definition s_wide :: contract where "s_wide = run accept_all deployed [tx_create, tx_reveal_wide]"

text \<open>A reveal that commits the true counts of the one-vote ballot.\<close>

definition tx_reveal_faithful :: "env \<times> call" where
  "tx_reveal_faithful = (at_time 3 3600, SetResults 0 [0, 1, 0])"

definition s_tallied :: contract where
  "s_tallied = run accept_all deployed [tx_create, tx_vote, tx_reveal_faithful]"

text \<open>
  A second voter, account 4, votes for Charlie. The decryption service below fails on
  every counter account 4 was granted, so Charlie's count cannot be decrypted.
\<close>

definition tx_vote_charlie :: "env \<times> call" where
  "tx_vote_charlie = (at_time 4 20, Vote 0 2)"

definition s_two_votes :: contract where
  "s_two_votes = run accept_all deployed [tx_create, tx_vote, tx_vote_charlie]"

definition lossy_decrypt :: userDecrypt where
  "lossy_decrypt h =
     (case h of ZeroHash \<Rightarrow> None
      | Ciphertext v ps \<Rightarrow> if Account 4 \<in> ps then None else Some (ucast v))"

definition tx_reveal_partial :: "env \<times> call" where
  "tx_reveal_partial = (at_time 3 3600, SetResults 0 [0, 1, 0])"

definition s_partial :: contract where
  "s_partial = run accept_all deployed [tx_create, tx_vote, tx_vote_charlie, tx_reveal_partial]"

section \<open>Loops, transactions and reachable states\<close>

lemma for_loop_fold: "for_loop i n body x = fold body [i..<n] x"
proof (induction i n body x rule: for_loop.induct)
  case (1 i n body x)
  show ?case
  proof (cases "i < n")
    case True
    then show ?thesis using 1 by (subst for_loop.simps) (simp add: upt_conv_Cons)
  next
    case False
    then show ?thesis by (subst for_loop.simps) simp
  qed
qed

lemma of_nat_eq_iff_unat:
  fixes k :: uint256
  assumes "n < 2 ^ 256"
  shows "(of_nat n = k) = (unat k = n)"
proof
  assume "of_nat n = k"
  then have "unat k = n mod 2 ^ 256" by (auto simp: unat_of_nat)
  then show "unat k = n" using assms by simp
next
  assume "unat k = n"
  then show "of_nat n = k" by auto
qed

lemma unat_of_nat_256: "n < 2 ^ 256 \<Longrightarrow> unat (of_nat n :: uint256) = n"
  by (simp add: unat_of_nat)

lemma fold_fun_upd:
  fixes f :: "uint256 \<Rightarrow> 'a"
  shows "n \<le> 2 ^ 256 \<Longrightarrow>
    fold (\<lambda>i f. f(of_nat i := g i)) [0..<n] f = (\<lambda>k. if unat k < n then g (unat k) else f k)"
proof (induction n)
  case 0
  then show ?case by simp
next
  case (Suc n)
  then have n: "n < 2 ^ 256" by simp
  have IH: "fold (\<lambda>i f. f(of_nat i := g i)) [0..<n] f
        = (\<lambda>k. if unat k < n then g (unat k) else f k)"
    by (rule Suc.IH) (use Suc.prems in simp)
  have "fold (\<lambda>i f. f(of_nat i := g i)) [0..<Suc n] f
        = (fold (\<lambda>i f. f(of_nat i := g i)) [0..<n] f)(of_nat n := g n)"
    by simp
  also have "\<dots> = (\<lambda>k. if unat k < n then g (unat k) else f k)(of_nat n := g n)"
    by (simp only: IH)
  also have "\<dots> = (\<lambda>k. if unat k < Suc n then g (unat k) else f k)"
  proof
    fix k :: uint256
    show "((\<lambda>k. if unat k < n then g (unat k) else f k)(of_nat n := g n)) k
          = (if unat k < Suc n then g (unat k) else f k)"
    proof (cases "k = of_nat n")
      case True
      then show ?thesis using unat_of_nat_256 [OF n] by simp
    next
      case False
      then have "unat k \<noteq> n" by auto
      then show ?thesis using False by (simp add: less_Suc_eq)
    qed
  qed
  finally show ?case .
qed

lemma push_loop:
  "n \<le> length cands \<Longrightarrow>
   fold (\<lambda>i cs. cs @ [cands ! i]) [0..<n] cs0 = cs0 @ take n cands"
  by (induction n) (simp_all add: take_Suc_conv_app_nth)

lemma read_loop:
  "n \<le> length xs \<Longrightarrow>
   fold (\<lambda>i res. res[i := g i]) [0..<n] xs = map g [0..<n] @ drop n xs"
proof (induction n)
  case 0
  then show ?case by simp
next
  case (Suc n)
  then have "n < length xs" by simp
  then have "(map g [0..<n] @ drop n xs)[n := g n] = map g [0..<n] @ g n # drop (Suc n) xs"
    by (simp add: list_update_append upd_conv_take_nth_drop)
  with Suc show ?case by simp
qed

lemma count_loop:
  "fold (\<lambda>i c. if P i then Suc c else c) xs c = c + length (filter P xs)"
  by (induction xs arbitrary: c) simp_all

lemma fill_loop:
  "fold (\<lambda>i acc. case acc of
            Inl err \<Rightarrow> Inl err
          | Inr (ids, index) \<Rightarrow>
              if P i
              then (if index < length ids then Inr (ids[index := of_nat i], Suc index)
                    else Inl (Panic 0x32))
              else Inr (ids, index))
     xs (Inr (pre @ replicate (length (filter P xs)) (0::uint256), length pre))
   = Inr (pre @ map of_nat (filter P xs), length pre + length (filter P xs))"
proof (induction xs arbitrary: pre)
  case Nil
  then show ?case by simp
next
  case (Cons x xs)
  show ?case
  proof (cases "P x")
    case True
    have "(pre @ replicate (Suc (length (filter P xs))) (0::uint256))[length pre := of_nat x]
          = (pre @ [of_nat x]) @ replicate (length (filter P xs)) 0"
      by (simp add: list_update_append)
    then show ?thesis using True Cons [of "pre @ [of_nat x]"] by simp
  next
    case False
    then show ?thesis using Cons [of pre] by simp
  qed
qed

lemma count_pass_eq: "count_pass n P = length (filter P [0..<n])"
  by (simp add: count_pass_def for_loop_fold count_loop)

lemma fill_pass_eq:
  "fill_pass n P (replicate (count_pass n P) 0)
     = Inr (map of_nat (filter P [0..<n]), length (filter P [0..<n]))"
  using fill_loop [of P "[0..<n]" "[]"]
  by (simp add: fill_pass_def for_loop_fold count_pass_eq)

lemma getActiveBallots_eq:
  "getActiveBallots e s = Inr (map of_nat (filter (active_at e s) [0..<unat (ballotCounter s)]))"
  by (simp add: getActiveBallots_def fill_pass_eq)

lemma getEndedBallots_eq:
  "getEndedBallots e s = Inr (map of_nat (filter (ended_at e s) [0..<unat (ballotCounter s)]))"
  by (simp add: getEndedBallots_def fill_pass_eq)

lemma uint_times_60: "uint d * 60 < 2 ^ 256 \<Longrightarrow> uint (d * 60 :: uint256) = uint d * 60"
  by (simp add: uint_word_ariths)

lemma createBallot_eq:
  "createBallot e ttl cands d s =
     (if length cands < 2 then Inl (Revert ''At least 2 candidates required'')
      else if length cands > 10 then Inl (Revert ''Maximum 10 candidates allowed'')
      else if d = 0 then Inl (Revert ''Duration must be positive'')
      else if create_overflows e d s then Inl (Panic 0x11)
      else Inr (ballotCounter s,
             s\<lparr>ballotCounter := ballotCounter s + 1,
               ballots := (ballots s)(ballotCounter s :=
                  created_ballot e ttl cands d (ballots s (ballotCounter s))),
               events := events s @ [BallotCreated (ballotCounter s) ttl (msg_sender e)
                                       (block_timestamp e + d * 60)]\<rparr>))"
proof -
  have len: "length cands \<le> 10 \<Longrightarrow> length cands \<le> 2 ^ 256"
    by simp
  show ?thesis
    by (auto simp: createBallot_def require_def checked_add_def checked_mul_def Let_def
        for_loop_fold push_loop fold_fun_upd len created_ballot_def create_overflows_def
        FHE_allowThis_def FHE_asEuint32_def uint_times_60 word_greater_zero_iff cong: if_cong)
qed

lemmas modifier_defs = require_def ballotExists_def ballotActive_def ballotEnded_def hasNotVoted_def

lemma vote_Inr:
  assumes "vote e b idx s = Inr s'"
  shows "b < ballotCounter s" "isActive (ballots s b)" "block_timestamp e < endTime (ballots s b)"
    "\<not> hasVoted (ballots s b) (msg_sender e)" "unat idx < length (candidates (ballots s b))"
    "uint (totalVotes (ballots s b)) + 1 < 2 ^ 256"
    "s' = s\<lparr>ballots := (ballots s)(b := (ballots s b)
              \<lparr>encryptedVotes := (encryptedVotes (ballots s b))
                  (ucast idx := Ciphertext (FHE_plain (encryptedVotes (ballots s b) (ucast idx)) + 1)
                                  {This, Account (msg_sender e)}),
               hasVoted := (hasVoted (ballots s b))(msg_sender e := True),
               totalVotes := totalVotes (ballots s b) + 1\<rparr>),
            events := events s @ [VoteCast b (msg_sender e)]\<rparr>"
  using assms
  by (auto simp: vote_def modifier_defs Let_def checked_add_def FHE_add_def FHE_asEuint32_def
      FHE_allowThis_def insert_commute split: if_splits)

lemma voteEncrypted_Inr:
  assumes "voteEncrypted fhe e b x p s = Inr s'"
  shows "b < ballotCounter s" "isActive (ballots s b)" "block_timestamp e < endTime (ballots s b)"
    "\<not> hasVoted (ballots s b) (msg_sender e)" "fhe x p \<noteq> None"
    "uint (totalVotes (ballots s b)) + 1 < 2 ^ 256"
    "s' = s\<lparr>ballots := (ballots s)(b := (ballots s b)
              \<lparr>encryptedVotes := (encryptedVotes (ballots s b))
                  (0 := Ciphertext (FHE_plain (encryptedVotes (ballots s b) 0) + 1)
                                  {This, Account (msg_sender e)}),
               hasVoted := (hasVoted (ballots s b))(msg_sender e := True),
               totalVotes := totalVotes (ballots s b) + 1\<rparr>),
            events := events s @ [VoteCast b (msg_sender e)]\<rparr>"
  using assms
  by (auto simp: voteEncrypted_def modifier_defs Let_def checked_add_def FHE_add_def
      FHE_asEuint32_def FHE_allowThis_def insert_commute split: if_splits option.splits)

lemma setResults_eq:
  "setResults e b rs s =
     (if \<not> b < ballotCounter s then Inl NotFoundError
      else if \<not> endTime (ballots s b) \<le> block_timestamp e then Inl StillActiveError
      else if resultsRevealed (ballots s b) then Inl AlreadyRevealedError
      else if length rs \<noteq> length (candidates (ballots s b))
        then Inl (Revert ''Invalid results length'')
      else Inr (s\<lparr>ballots := (ballots s)(b := (ballots s b)
                    \<lparr>finalResults := fold (\<lambda>i fr. fr(of_nat i := ucast (rs ! i)))
                                        [0..<length rs] (finalResults (ballots s b)),
                     resultsRevealed := True\<rparr>),
                  events := events s @ [ResultsRevealed b rs]\<rparr>))"
  by (simp add: setResults_def modifier_defs Let_def for_loop_fold)

lemma getResults_eq:
  "getResults s b =
     (if \<not> b < ballotCounter s then Inl NotFoundError
      else if \<not> resultsRevealed (ballots s b) then Inl NotRevealedError
      else Inr (map (\<lambda>i. ucast (finalResults (ballots s b) (of_nat i)))
                  [0..<length (candidates (ballots s b))]))"
  by (simp add: getResults_def modifier_defs Let_def for_loop_fold read_loop)

lemma word_less_succ:
  fixes b c :: uint256
  assumes "uint c + 1 < 2 ^ 256"
  shows "(b < c + 1) = (b < c \<or> b = c)"
proof -
  have "uint (c + 1) = uint c + 1"
    using assms by (simp add: uint_word_ariths)
  then show ?thesis
    by (auto simp: word_less_def word_uint_eq_iff)
qed

lemma exec_Inr_cases:
  assumes "exec fhe e c s = Inr s'"
  obtains
    (create) ttl cands d where "c = CreateBallot ttl cands d"
      "2 \<le> length cands" "length cands \<le> 10" "d \<noteq> 0" "\<not> create_overflows e d s"
      "s' = s\<lparr>ballotCounter := ballotCounter s + 1,
               ballots := (ballots s)(ballotCounter s :=
                  created_ballot e ttl cands d (ballots s (ballotCounter s))),
               events := events s @ [BallotCreated (ballotCounter s) ttl (msg_sender e)
                                       (block_timestamp e + d * 60)]\<rparr>"
  | (vote) b idx where "c = Vote b idx" "vote e b idx s = Inr s'"
  | (voteEncrypted) b x p where "c = VoteEncrypted b x p" "voteEncrypted fhe e b x p s = Inr s'"
  | (setResults) b rs where "c = SetResults b rs" "setResults e b rs s = Inr s'"
proof (cases c)
  case (CreateBallot ttl cands d)
  with assms have "map_sum id snd (createBallot e ttl cands d s) = Inr s'" by simp
  then show ?thesis
    using CreateBallot
    by (intro create [of ttl cands d]) (auto simp: createBallot_eq split: if_splits)
qed (use assms in auto)

lemma counter_less_succ:
  fixes c :: uint256
  shows "\<not> create_overflows e d s \<Longrightarrow> (b < ballotCounter s + 1) = (b < ballotCounter s \<or> b = ballotCounter s)"
  by (rule word_less_succ) (simp add: create_overflows_def)

lemma exec_counter_mono:
  assumes "exec fhe e c s = Inr s'" "b < ballotCounter s"
  shows "b < ballotCounter s'"
  using assms(1)
proof (cases rule: exec_Inr_cases)
  case (create ttl cands d)
  then show ?thesis using assms(2) by (simp add: counter_less_succ)
next
  case (vote b idx)
  then show ?thesis using assms(2) vote_Inr(7) [OF vote(2)] by simp
next
  case (voteEncrypted b x p)
  then show ?thesis using assms(2) voteEncrypted_Inr(7) [OF voteEncrypted(2)] by simp
next
  case (setResults b rs)
  then show ?thesis using assms(2) by (auto simp: setResults_eq split: if_splits)
qed

lemma exec_frame:
  assumes "exec fhe e c s = Inr s'" "b < ballotCounter s"
  shows "endTime (ballots s' b) = endTime (ballots s b) \<and>
         candidates (ballots s' b) = candidates (ballots s b) \<and>
         isActive (ballots s' b) = isActive (ballots s b) \<and>
         (resultsRevealed (ballots s b) \<longrightarrow>
            resultsRevealed (ballots s' b) \<and>
            finalResults (ballots s' b) = finalResults (ballots s b))"
  using assms(1)
proof (cases rule: exec_Inr_cases)
  case (create ttl cands d)
  then show ?thesis using assms(2) by auto
next
  case (vote b' idx)
  then show ?thesis using vote_Inr(7) [OF vote(2)] by auto
next
  case (voteEncrypted b' x p)
  then show ?thesis using voteEncrypted_Inr(7) [OF voteEncrypted(2)] by auto
next
  case (setResults b' rs)
  then show ?thesis by (auto simp: setResults_eq split: if_splits)
qed

lemma exec_hasVoted_mono:
  assumes "exec fhe e c s = Inr s'" "hasVoted (ballots s b) v"
  shows "hasVoted (ballots s' b) v"
  using assms(1)
proof (cases rule: exec_Inr_cases)
  case (create ttl cands d)
  then show ?thesis using assms(2) by (auto simp: created_ballot_def)
next
  case (vote b' idx)
  then show ?thesis using assms(2) vote_Inr(7) [OF vote(2)] by auto
next
  case (voteEncrypted b' x p)
  then show ?thesis using assms(2) voteEncrypted_Inr(7) [OF voteEncrypted(2)] by auto
next
  case (setResults b' rs)
  then show ?thesis using assms(2) by (auto simp: setResults_eq split: if_splits)
qed

lemma apply_tx_cases:
  obtains (reverted) "apply_tx fhe s tx = s"
  | (committed) "exec fhe (fst tx) (snd tx) s = Inr (apply_tx fhe s tx)"
  by (cases "exec fhe (fst tx) (snd tx) s") (auto simp: apply_tx_def)

lemma wf_deployed: "wf deployed"
  by (simp add: wf_def deployed_def)

lemma wf_exec:
  assumes "exec fhe e c s = Inr s'" "wf s"
  shows "wf s'"
  using assms(1)
proof (cases rule: exec_Inr_cases)
  case (create ttl cands d)
  have "ballots s (ballotCounter s) = empty_ballot"
    using assms(2) by (simp add: wf_def)
  then show ?thesis using assms(2) create
    by (auto simp: wf_def counter_less_succ created_ballot_def empty_ballot_def)
next
  case (vote b' idx)
  then show ?thesis using assms(2) vote_Inr(1,7) [OF vote(2)]
    by (auto simp: wf_def)
next
  case (voteEncrypted b' x p)
  then show ?thesis using assms(2) voteEncrypted_Inr(1,7) [OF voteEncrypted(2)]
    by (auto simp: wf_def)
next
  case (setResults b' rs)
  then show ?thesis using assms(2) by (auto simp: wf_def setResults_eq split: if_splits)
qed

lemma wf_apply_tx: "wf s \<Longrightarrow> wf (apply_tx fhe s tx)"
  by (cases rule: apply_tx_cases [of fhe s tx]) (auto intro: wf_exec)

lemma wf_run: "wf s \<Longrightarrow> wf (run fhe s txs)"
  by (induction txs arbitrary: s) (simp_all add: wf_apply_tx)

lemma wf_reachable: "wf (run fhe deployed txs)"
  by (rule wf_run [OF wf_deployed])

lemma revealEvents_append:
  "revealEvents (evs @ evs') b = revealEvents evs b @ revealEvents evs' b"
  by (induction evs b rule: revealEvents.induct) simp_all

lemma run_frame:
  assumes "b < ballotCounter s"
  shows "b < ballotCounter (run fhe s txs) \<and>
         endTime (ballots (run fhe s txs) b) = endTime (ballots s b) \<and>
         candidates (ballots (run fhe s txs) b) = candidates (ballots s b) \<and>
         isActive (ballots (run fhe s txs) b) = isActive (ballots s b) \<and>
         (resultsRevealed (ballots s b) \<longrightarrow>
            resultsRevealed (ballots (run fhe s txs) b) \<and>
            finalResults (ballots (run fhe s txs) b) = finalResults (ballots s b))"
  using assms
proof (induction txs arbitrary: s)
  case Nil
  then show ?case by simp
next
  case (Cons tx txs)
  show ?case
  proof (cases rule: apply_tx_cases [of fhe s tx])
    case reverted
    then show ?thesis using Cons by simp
  next
    case committed
    from exec_counter_mono [OF committed Cons.prems] exec_frame [OF committed Cons.prems]
      Cons.IH [of "apply_tx fhe s tx"]
    show ?thesis by auto
  qed
qed

lemma run_hasVoted_mono:
  "hasVoted (ballots s b) v \<Longrightarrow> hasVoted (ballots (run fhe s txs) b) v"
proof (induction txs arbitrary: s)
  case Nil
  then show ?case by simp
next
  case (Cons tx txs)
  have "hasVoted (ballots (apply_tx fhe s tx) b) v"
    by (cases rule: apply_tx_cases [of fhe s tx]) (auto intro: exec_hasVoted_mono Cons.prems)
  then show ?case using Cons.IH by simp
qed

lemma reveal_inv_deployed: "reveal_inv deployed"
  by (simp add: reveal_inv_def deployed_def empty_ballot_def)

lemma stored_results:
  assumes "length rs \<le> 10" "i < length rs"
  shows "fold (\<lambda>i fr. fr(of_nat i := ucast (rs ! i))) [0..<length rs] fr0 (of_nat i :: uint256)
         = (ucast (rs ! i :: uint256) :: uint32)"
proof -
  have "length rs \<le> 2 ^ 256" "i < 2 ^ 256" using assms by simp_all
  then show ?thesis using assms(2)
    by (simp add: fold_fun_upd unat_of_nat_256)
qed

lemma reveal_inv_exec:
  assumes "exec fhe e c s = Inr s'" "wf s" "reveal_inv s"
  shows "reveal_inv s'"
  using assms(1)
proof (cases rule: exec_Inr_cases)
  case (create ttl cands d)
  have fresh: "ballots s (ballotCounter s) = empty_ballot"
    using assms(2) by (simp add: wf_def)
  then have "revealEvents (events s) (ballotCounter s) = []"
    using assms(3) by (auto simp: reveal_inv_def empty_ballot_def split: if_splits)
  then show ?thesis using assms(3) create
    by (auto simp: reveal_inv_def revealEvents_append created_ballot_def)
next
  case (vote b' idx)
  show ?thesis using assms(3) unfolding vote_Inr(7) [OF vote(2)]
    by (auto simp: reveal_inv_def revealEvents_append)
next
  case (voteEncrypted b' x p)
  show ?thesis using assms(3) unfolding voteEncrypted_Inr(7) [OF voteEncrypted(2)]
    by (auto simp: reveal_inv_def revealEvents_append)
next
  case (setResults b' rs)
  then have ok: "b' < ballotCounter s" "\<not> resultsRevealed (ballots s b')"
    "length rs = length (candidates (ballots s b'))"
    and s': "s' = s\<lparr>ballots := (ballots s)(b' := (ballots s b')
                    \<lparr>finalResults := fold (\<lambda>i fr. fr(of_nat i := ucast (rs ! i)))
                                        [0..<length rs] (finalResults (ballots s b')),
                     resultsRevealed := True\<rparr>),
                  events := events s @ [ResultsRevealed b' rs]\<rparr>"
    by (auto simp: setResults_eq split: if_splits)
  have len: "length rs \<le> 10" using assms(2) ok by (simp add: wf_def)
  have none: "revealEvents (events s) b' = []"
    using assms(3) ok(2) by (auto simp: reveal_inv_def split: if_splits)
  show ?thesis
    unfolding reveal_inv_def
  proof
    fix b
    show "if resultsRevealed (ballots s' b)
          then \<exists>rs. revealEvents (events s') b = [rs] \<and>
                    length rs = length (candidates (ballots s' b)) \<and>
                    (\<forall>i < length rs. finalResults (ballots s' b) (of_nat i) = ucast (rs ! i))
          else revealEvents (events s') b = []"
    proof (cases "b = b'")
      case True
      have "\<forall>i < length rs.
              fold (\<lambda>i fr. fr(of_nat i := ucast (rs ! i))) [0..<length rs]
                (finalResults (ballots s b')) (of_nat i) = ucast (rs ! i)"
        using len by (simp add: stored_results)
      then show ?thesis using True none
        by (simp add: s' revealEvents_append ok(3) [symmetric])
    next
      case False
      then show ?thesis using assms(3) [unfolded reveal_inv_def, rule_format, of b]
        by (simp add: s' revealEvents_append)
    qed
  qed
qed

lemma reveal_inv_run: "wf s \<Longrightarrow> reveal_inv s \<Longrightarrow> reveal_inv (run fhe s txs)"
proof (induction txs arbitrary: s)
  case Nil
  then show ?case by simp
next
  case (Cons tx txs)
  have "wf (apply_tx fhe s tx) \<and> reveal_inv (apply_tx fhe s tx)"
    by (cases rule: apply_tx_cases [of fhe s tx])
       (auto intro: wf_exec reveal_inv_exec Cons.prems)
  then show ?case using Cons.IH by simp
qed

lemma reveal_inv_reachable: "reveal_inv (run fhe deployed txs)"
  by (rule reveal_inv_run [OF wf_deployed reveal_inv_deployed])

lemma of_nat_below_counter:
  fixes c :: uint256
  assumes "i < unat c"
  shows "of_nat i < c" "unat (of_nat i :: uint256) = i"
proof -
  have "unat c < 2 ^ 256" using unsigned_less [of c] by simp
  then have i: "i < 2 ^ 256" using assms by simp
  show u: "unat (of_nat i :: uint256) = i" by (rule unat_of_nat_256 [OF i])
  show "of_nat i < c" using assms u by (simp add: word_less_nat_alt)
qed

lemma ids_below_counter:
  fixes c :: uint256
  shows "of_nat ` {0..<unat c} = {b. b < c}"
proof (intro set_eqI iffI)
  fix b :: uint256 assume "b \<in> of_nat ` {0..<unat c}"
  then show "b \<in> {b. b < c}" by (auto simp: of_nat_below_counter)
next
  fix b :: uint256 assume "b \<in> {b. b < c}"
  then have "unat b < unat c" by (simp add: word_less_nat_alt)
  moreover have "b = of_nat (unat b)" by simp
  ultimately show "b \<in> of_nat ` {0..<unat c}" by (metis atLeastLessThan_iff image_eqI le0)
qed

lemma inj_on_ids:
  fixes c :: uint256
  shows "inj_on (of_nat :: nat \<Rightarrow> uint256) {0..<unat c}"
  by (rule inj_on_inverseI [where g = unat]) (simp add: of_nat_below_counter)

lemma unat_to_uint32: "unat (ucast (r :: uint256) :: uint32) = unat r mod 2 ^ 32"
  by (simp add: unsigned_ucast_eq take_bit_eq_mod)

lemma unat_from_uint32: "unat (ucast (r :: uint32) :: uint256) = unat r"
proof -
  have "unat r < 2 ^ 32" using unsigned_less [of r] by simp
  then have "unat r < 2 ^ 256" by simp
  then show ?thesis by (simp add: unsigned_ucast_eq take_bit_eq_mod)
qed

lemma unat_uint32_round_trip:
  "unat (ucast (ucast (r :: uint256) :: uint32) :: uint256) = unat r mod 2 ^ 32"
  by (simp only: unat_from_uint32 unat_to_uint32)

lemma setResults_Inr:
  assumes "setResults e b rs s = Inr s'"
  shows "b < ballotCounter s" "endTime (ballots s b) \<le> block_timestamp e"
    "\<not> resultsRevealed (ballots s b)" "length rs = length (candidates (ballots s b))"
    "s' = s\<lparr>ballots := (ballots s)(b := (ballots s b)
                    \<lparr>finalResults := fold (\<lambda>i fr. fr(of_nat i := ucast (rs ! i)))
                                        [0..<length rs] (finalResults (ballots s b)),
                     resultsRevealed := True\<rparr>),
                  events := events s @ [ResultsRevealed b rs]\<rparr>"
  using assms by (auto simp: setResults_eq split: if_splits)

lemma apply_tx_reveals:
  assumes "\<not> resultsRevealed (ballots s b)" "resultsRevealed (ballots (apply_tx fhe s tx) b)"
  shows "endTime (ballots s b) \<le> block_timestamp (fst tx) \<and> (\<exists>rs. snd tx = SetResults b rs)"
proof (cases rule: apply_tx_cases [of fhe s tx])
  case reverted
  then show ?thesis using assms by simp
next
  case committed
  then show ?thesis
  proof (cases rule: exec_Inr_cases)
    case (create ttl cands d)
    then show ?thesis using assms by (auto simp: created_ballot_def split: if_splits)
  next
    case (vote b' idx)
    then show ?thesis using assms vote_Inr(7) [OF vote(2)] by (auto split: if_splits)
  next
    case (voteEncrypted b' x p)
    then show ?thesis using assms voteEncrypted_Inr(7) [OF voteEncrypted(2)]
      by (auto split: if_splits)
  next
    case (setResults b' rs)
    then show ?thesis using assms setResults_Inr(2,5) [OF setResults(2)]
      by (auto split: if_splits)
  qed
qed

lemma decrypt_loop:
  assumes "b < ballotCounter s" "n \<le> length (candidates (ballots s b))"
    "length (candidates (ballots s b)) \<le> 10"
  shows "decrypt_counts dec s b n
         = Inr (map (\<lambda>i. decrypted_or_zero dec (encryptedVotes (ballots s b) (of_nat i))) [0..<n])"
  using assms(2)
proof (induction n)
  case 0
  then show ?case by (simp add: decrypt_counts_def for_loop_fold)
next
  case (Suc n)
  then have "n < 2 ^ 256" using assms(3) by simp
  then have "unat (of_nat n :: uint256) = n" by (rule unat_of_nat_256)
  then have "getEncryptedVoteCount s b (of_nat n) = Inr (encryptedVotes (ballots s b) (of_nat n))"
    using assms(1) Suc.prems by (simp add: getEncryptedVoteCount_def modifier_defs)
  then show ?case using Suc
    by (simp add: decrypt_counts_def for_loop_fold decrypted_or_zero_def split: option.splits)
qed

lemma vote_after_voting:
  assumes "b < ballotCounter s" "isActive (ballots s b)" "hasVoted (ballots s b) (msg_sender e)"
  shows "vote e b idx s =
           (if block_timestamp e < endTime (ballots s b) then Inl DuplicateVoteError
            else Inl (Revert ''Ballot has ended''))"
    and "voteEncrypted fhe e b x p s =
           (if block_timestamp e < endTime (ballots s b) then Inl DuplicateVoteError
            else Inl (Revert ''Ballot has ended''))"
  using assms by (simp_all add: vote_def voteEncrypted_def modifier_defs)

lemma credit_sum:
  fixes ev :: "uint256 \<Rightarrow> euint32"
  assumes j: "j < n" and n: "n \<le> 10"
    and room: "sum_list (map (\<lambda>i. unat (FHE_plain (ev (of_nat i)))) [0..<n]) + 1 < 2 ^ 32"
  shows "sum_list (map (\<lambda>i. unat (FHE_plain
            ((ev(of_nat j := Ciphertext (FHE_plain (ev (of_nat j)) + 1) ps)) (of_nat i)))) [0..<n])
         = sum_list (map (\<lambda>i. unat (FHE_plain (ev (of_nat i)))) [0..<n]) + 1"
proof -
  define xs where "xs = map (\<lambda>i. unat (FHE_plain (ev (of_nat i)))) [0..<n]"
  have len: "length xs = n" by (simp add: xs_def)
  have xj: "xs ! j = unat (FHE_plain (ev (of_nat j)))" using j by (simp add: xs_def)
  have "xs ! j \<le> sum_list xs" using j len by (simp add: elem_le_sum_list)
  then have small: "unat (FHE_plain (ev (of_nat j))) + 1 < 2 ^ 32"
    using room xj by (simp add: xs_def)
  have inc: "unat (FHE_plain (ev (of_nat j)) + 1) = unat (FHE_plain (ev (of_nat j))) + 1"
    using small by (simp add: unat_word_ariths)
  have inj: "((of_nat j :: uint256) = of_nat i) = (j = i)" if "i < n" for i
  proof -
    have "i < 2 ^ 256" "j < 2 ^ 256" using that j n by simp_all
    then show ?thesis by (metis unat_of_nat_256)
  qed
  have "map (\<lambda>i. unat (FHE_plain
            ((ev(of_nat j := Ciphertext (FHE_plain (ev (of_nat j)) + 1) ps)) (of_nat i)))) [0..<n]
        = xs[j := xs ! j + 1]"
  proof (rule nth_equalityI)
    show "length (map (\<lambda>i. unat (FHE_plain
            ((ev(of_nat j := Ciphertext (FHE_plain (ev (of_nat j)) + 1) ps)) (of_nat i)))) [0..<n])
          = length (xs[j := xs ! j + 1])"
      by (simp add: len)
  next
    fix i
    assume "i < length (map (\<lambda>i. unat (FHE_plain
            ((ev(of_nat j := Ciphertext (FHE_plain (ev (of_nat j)) + 1) ps)) (of_nat i)))) [0..<n])"
    then have i: "i < n" by simp
    show "map (\<lambda>i. unat (FHE_plain
            ((ev(of_nat j := Ciphertext (FHE_plain (ev (of_nat j)) + 1) ps)) (of_nat i)))) [0..<n] ! i
          = xs[j := xs ! j + 1] ! i"
    proof (cases "i = j")
      case True
      then show ?thesis using i len inc xj by simp
    next
      case False
      then have "(of_nat i :: uint256) \<noteq> of_nat j" using inj [OF i] by auto
      then show ?thesis using i len False by (simp add: xs_def)
    qed
  qed
  moreover have "sum_list (xs[j := xs ! j + 1]) = sum_list xs + 1"
    using j len \<open>xs ! j \<le> sum_list xs\<close> by (simp add: sum_list_update)
  ultimately show ?thesis by (simp add: xs_def)
qed

lemma counters_sum_credit:
  assumes "j < length (candidates b)" "length (candidates b) \<le> 10"
    "counters_sum b + 1 < 2 ^ 32"
  shows "counters_sum (b\<lparr>encryptedVotes := (encryptedVotes b)
            (of_nat j := Ciphertext (FHE_plain (encryptedVotes b (of_nat j)) + 1) ps),
          hasVoted := hv, totalVotes := tv\<rparr>) = counters_sum b + 1"
  using credit_sum [OF assms(1,2), of "encryptedVotes b" ps] assms(3)
  by (simp add: counters_sum_def)

lemma unat_succ_256:
  fixes v :: uint256
  shows "uint v + 1 < 2 ^ 256 \<Longrightarrow> unat (v + 1) = unat v + 1"
proof -
  assume "uint v + 1 < 2 ^ 256"
  then have "uint (v + 1) = uint v + 1" by (simp add: uint_word_ariths)
  then have "int (unat (v + 1)) = int (unat v) + 1" unfolding uint_nat .
  then show ?thesis by linarith
qed

lemma tally_inv_deployed: "tally_inv deployed"
  by (simp add: tally_inv_def deployed_def)

lemma tally_credit:
  assumes wf: "wf s" and inv: "tally_inv s" and b': "b' < ballotCounter s"
    and j: "j < length (candidates (ballots s b'))"
    and room: "uint (totalVotes (ballots s b')) + 1 < 2 ^ 256"
    and s': "s' = s\<lparr>ballots := (ballots s)(b' := (ballots s b')
              \<lparr>encryptedVotes := (encryptedVotes (ballots s b'))
                  (of_nat j := Ciphertext (FHE_plain (encryptedVotes (ballots s b') (of_nat j)) + 1) ps),
               hasVoted := hv,
               totalVotes := totalVotes (ballots s b') + 1\<rparr>),
            events := evs\<rparr>"
  shows "tally_inv s'"
  unfolding tally_inv_def
proof (intro allI impI)
  fix b
  assume b: "b < ballotCounter s'" and small: "unat (totalVotes (ballots s' b)) < 2 ^ 32"
  show "counters_sum (ballots s' b) = unat (totalVotes (ballots s' b))"
  proof (cases "b = b'")
    case True
    have tv: "unat (totalVotes (ballots s b') + 1) = unat (totalVotes (ballots s b')) + 1"
      using room by (rule unat_succ_256)
    then have lt: "unat (totalVotes (ballots s b')) + 1 < 2 ^ 32"
      using small True by (simp add: s')
    then have old: "counters_sum (ballots s b') = unat (totalVotes (ballots s b'))"
      using inv b' by (simp add: tally_inv_def)
    have len: "length (candidates (ballots s b')) \<le> 10" using wf b' by (simp add: wf_def)
    have "counters_sum (ballots s' b') = counters_sum (ballots s b') + 1"
      using counters_sum_credit [OF j len] old lt by (simp add: s')
    then show ?thesis using True old tv by (simp add: s')
  next
    case False
    then show ?thesis using inv b small by (simp add: s' tally_inv_def)
  qed
qed

lemma tally_inv_exec:
  assumes "exec fhe e c s = Inr s'" "wf s" "tally_inv s"
  shows "tally_inv s'"
  using assms(1)
proof (cases rule: exec_Inr_cases)
  case (create ttl cands d)
  have fresh: "ballots s (ballotCounter s) = empty_ballot"
    using assms(2) by (simp add: wf_def)
  have idx: "unat (of_nat i :: uint256) = i" if "i < length cands" for i
    using that create(3) by (intro unat_of_nat_256) simp
  have "map (\<lambda>i. unat (FHE_plain (if unat (of_nat i :: uint256) < length cands
                 then Ciphertext 0 {This} else ZeroHash))) [0..<length cands]
        = map (\<lambda>i. 0) [0..<length cands]"
    by (rule map_cong) (simp_all add: idx)
  then have new: "counters_sum (created_ballot e ttl cands d empty_ballot) = 0"
    by (simp add: counters_sum_def created_ballot_def empty_ballot_def)
  show ?thesis using assms(3) create(5) new
    by (auto simp: tally_inv_def create(6) counter_less_succ fresh created_ballot_def)
next
  case (vote b' idx)
  note v = vote_Inr [OF vote(2)]
  have key: "(ucast idx :: uint256) = of_nat (unat idx)" by (rule of_nat_unat [symmetric])
  show ?thesis
    by (rule tally_credit [OF assms(2,3) v(1) v(5) v(6)]) (rule v(7) [unfolded key])
next
  case (voteEncrypted b' x p)
  note v = voteEncrypted_Inr [OF voteEncrypted(2)]
  have pos: "0 < length (candidates (ballots s b'))"
    using assms(2) v(1) by (auto simp: wf_def)
  show ?thesis
    by (rule tally_credit [OF assms(2,3) v(1) pos v(6)]) (simp add: v(7))
next
  case (setResults b' rs)
  show ?thesis using assms(3)
    by (auto simp: tally_inv_def setResults_Inr(5) [OF setResults(2)] counters_sum_def)
qed

lemma tally_inv_run: "wf s \<Longrightarrow> tally_inv s \<Longrightarrow> tally_inv (run fhe s txs)"
proof (induction txs arbitrary: s)
  case Nil
  then show ?case by simp
next
  case (Cons tx txs)
  have "wf (apply_tx fhe s tx) \<and> tally_inv (apply_tx fhe s tx)"
    by (cases rule: apply_tx_cases [of fhe s tx])
       (auto intro: wf_exec tally_inv_exec Cons.prems)
  then show ?case using Cons.IH by simp
qed

lemma tally_inv_reachable: "tally_inv (run fhe deployed txs)"
  by (rule tally_inv_run [OF wf_deployed tally_inv_deployed])

lemma uint32_via_uint256: "(ucast (ucast (v :: uint32) :: uint256) :: uint32) = v"
proof -
  have "unat (ucast (ucast v :: uint256) :: uint32) = unat v mod 2 ^ 32"
    by (simp only: unat_to_uint32 unat_from_uint32)
  moreover have "unat v < 2 ^ 32" using unsigned_less [of v] by simp
  ultimately have "unat (ucast (ucast v :: uint256) :: uint32) = unat v" by simp
  then show ?thesis by (rule unsigned_word_eqI)
qed

subsection \<open>The scenario, evaluated\<close>

lemma s_created_eq:
  "s_created = \<lparr>ballotCounter = 1,
      ballots = (\<lambda>_. empty_ballot)(0 := created_ballot (at_time 1 0) ''Election''
                    [''Alice'', ''Bob'', ''Charlie''] 60 empty_ballot),
      events = [BallotCreated 0 ''Election'' 1 3600]\<rparr>"
  by (simp add: s_created_def tx_create_def apply_tx_def createBallot_eq create_overflows_def
      deployed_def at_time_def)

lemma s_created_facts:
  "ballotCounter s_created = 1" "endTime (ballots s_created 0) = 3600"
  "resultsRevealed (ballots s_created 0) = False"
  "candidates (ballots s_created 0) = [''Alice'', ''Bob'', ''Charlie'']"
  "isActive (ballots s_created 0)" "totalVotes (ballots s_created 0) = 0"
  "hasVoted (ballots s_created 0) a = False"
  "encryptedVotes (ballots s_created 0) 0 = Ciphertext 0 {This}"
  "encryptedVotes (ballots s_created 0) 1 = Ciphertext 0 {This}"
  "encryptedVotes (ballots s_created 0) 2 = Ciphertext 0 {This}"
  "events s_created = [BallotCreated 0 ''Election'' 1 3600]"
  "title (ballots s_created 0) = ''Election''" "creator (ballots s_created 0) = 1"
  by (simp_all add: s_created_eq created_ballot_def empty_ballot_def at_time_def)

lemma s_revealed_eq:
  "s_revealed = s_created
     \<lparr>ballots := (ballots s_created)(0 := (ballots s_created 0)
          \<lparr>finalResults := (finalResults (ballots s_created 0))(0 := 5, 1 := 7, 2 := 0),
           resultsRevealed := True\<rparr>),
      events := events s_created @ [ResultsRevealed 0 [5, 7, 0]]\<rparr>"
proof -
  have "s_revealed = apply_tx accept_all s_created tx_reveal"
    by (simp add: s_revealed_def s_created_def)
  then show ?thesis
    by (simp add: tx_reveal_def apply_tx_def setResults_eq s_created_facts at_time_def)
qed

lemma s_revealed_step: "setResults (at_time 3 3600) 0 [5, 7, 0] s_created = Inr s_revealed"
  by (simp add: s_revealed_eq setResults_eq s_created_facts at_time_def)

lemma s_revealed_facts:
  "ballotCounter s_revealed = 1"
  "resultsRevealed (ballots s_revealed 0)"
  "candidates (ballots s_revealed 0) = [''Alice'', ''Bob'', ''Charlie'']"
  "totalVotes (ballots s_revealed 0) = 0"
  "endTime (ballots s_revealed 0) = 3600"
  "finalResults (ballots s_revealed 0) 0 = 5"
  "finalResults (ballots s_revealed 0) 1 = 7"
  "finalResults (ballots s_revealed 0) 2 = 0"
  by (simp_all add: s_revealed_eq s_created_facts)

lemma s_voted_eq:
  "s_voted = s_created
     \<lparr>ballots := (ballots s_created)(0 := (ballots s_created 0)
          \<lparr>encryptedVotes := (encryptedVotes (ballots s_created 0))
              (1 := Ciphertext 1 {This, Account 2}),
           hasVoted := (hasVoted (ballots s_created 0))(2 := True),
           totalVotes := 1\<rparr>),
      events := events s_created @ [VoteCast 0 2]\<rparr>"
proof -
  have "s_voted = apply_tx accept_all s_created tx_vote"
    by (simp add: s_voted_def s_created_def)
  then show ?thesis
    by (simp add: tx_vote_def apply_tx_def vote_def modifier_defs Let_def checked_add_def
        s_created_facts at_time_def FHE_add_def FHE_asEuint32_def FHE_allowThis_def
        insert_commute)
qed

lemma s_voted_step: "vote (at_time 2 10) 0 1 s_created = Inr s_voted"
  by (simp add: s_voted_eq vote_def modifier_defs Let_def checked_add_def
        s_created_facts at_time_def FHE_add_def FHE_asEuint32_def FHE_allowThis_def
        insert_commute)

lemma s_voted_facts:
  "ballotCounter s_voted = 1"
  "hasVoted (ballots s_voted 0) 2"
  "totalVotes (ballots s_voted 0) = 1"
  "endTime (ballots s_voted 0) = 3600"
  "isActive (ballots s_voted 0)"
  "resultsRevealed (ballots s_voted 0) = False"
  "candidates (ballots s_voted 0) = [''Alice'', ''Bob'', ''Charlie'']"
  "encryptedVotes (ballots s_voted 0) 0 = Ciphertext 0 {This}"
  "encryptedVotes (ballots s_voted 0) 1 = Ciphertext 1 {This, Account 2}"
  "encryptedVotes (ballots s_voted 0) 2 = Ciphertext 0 {This}"
  by (simp_all add: s_voted_eq s_created_facts)

lemma s_voted_encrypted_eq:
  "s_voted_encrypted = s_created
     \<lparr>ballots := (ballots s_created)(0 := (ballots s_created 0)
          \<lparr>encryptedVotes := (encryptedVotes (ballots s_created 0))
              (0 := Ciphertext 1 {This, Account 2}),
           hasVoted := (hasVoted (ballots s_created 0))(2 := True),
           totalVotes := 1\<rparr>),
      events := events s_created @ [VoteCast 0 2]\<rparr>"
proof -
  have "s_voted_encrypted = apply_tx accept_all s_created tx_voteEncrypted"
    by (simp add: s_voted_encrypted_def s_created_def)
  then show ?thesis
    by (simp add: tx_voteEncrypted_def apply_tx_def voteEncrypted_def modifier_defs Let_def
        checked_add_def s_created_facts at_time_def FHE_add_def FHE_asEuint32_def
        FHE_allowThis_def accept_all_def insert_commute)
qed

lemma s_voted_encrypted_step:
  "voteEncrypted accept_all (at_time 2 10) 0 2 [] s_created = Inr s_voted_encrypted"
  by (simp add: s_voted_encrypted_eq voteEncrypted_def modifier_defs Let_def
        checked_add_def s_created_facts at_time_def FHE_add_def FHE_asEuint32_def
        FHE_allowThis_def accept_all_def insert_commute)

lemma s_wide_eq:
  "s_wide = s_created
     \<lparr>ballots := (ballots s_created)(0 := (ballots s_created 0)
          \<lparr>finalResults := (finalResults (ballots s_created 0))
              (0 := ucast (4294967301 :: uint256), 1 := 7, 2 := 0),
           resultsRevealed := True\<rparr>),
      events := events s_created @ [ResultsRevealed 0 [4294967301, 7, 0]]\<rparr>"
proof -
  have "s_wide = apply_tx accept_all s_created tx_reveal_wide"
    by (simp add: s_wide_def s_created_def)
  then show ?thesis
    by (simp add: tx_reveal_wide_def apply_tx_def setResults_eq s_created_facts at_time_def)
qed

lemma s_wide_step:
  "setResults (at_time 3 3600) 0 [4294967301, 7, 0] s_created = Inr s_wide"
  by (simp add: s_wide_eq setResults_eq s_created_facts at_time_def)

lemma s_wide_facts:
  "ballotCounter s_wide = 1"
  "resultsRevealed (ballots s_wide 0)"
  "candidates (ballots s_wide 0) = [''Alice'', ''Bob'', ''Charlie'']"
  "finalResults (ballots s_wide 0) 0 = 5"
  "finalResults (ballots s_wide 0) 1 = 7"
  "finalResults (ballots s_wide 0) 2 = 0"
  "events s_wide = [BallotCreated 0 ''Election'' 1 3600, ResultsRevealed 0 [4294967301, 7, 0]]"
  by (simp_all add: s_wide_eq s_created_facts)

lemma s_two_votes_eq:
  "s_two_votes = s_voted
     \<lparr>ballots := (ballots s_voted)(0 := (ballots s_voted 0)
          \<lparr>encryptedVotes := (encryptedVotes (ballots s_voted 0))
              (2 := Ciphertext 1 {This, Account 4}),
           hasVoted := (hasVoted (ballots s_voted 0))(4 := True),
           totalVotes := 2\<rparr>),
      events := events s_voted @ [VoteCast 0 4]\<rparr>"
proof -
  have "s_two_votes = apply_tx accept_all s_voted tx_vote_charlie"
    by (simp add: s_two_votes_def s_voted_def)
  moreover have "hasVoted (ballots s_voted 0) 4 = False"
    by (simp add: s_voted_eq s_created_facts)
  ultimately show ?thesis
    by (simp add: tx_vote_charlie_def apply_tx_def vote_def modifier_defs Let_def checked_add_def
        s_voted_facts at_time_def FHE_add_def FHE_asEuint32_def FHE_allowThis_def
        insert_commute)
qed

lemma s_two_votes_facts:
  "ballotCounter s_two_votes = 1"
  "totalVotes (ballots s_two_votes 0) = 2"
  "endTime (ballots s_two_votes 0) = 3600"
  "resultsRevealed (ballots s_two_votes 0) = False"
  "candidates (ballots s_two_votes 0) = [''Alice'', ''Bob'', ''Charlie'']"
  "encryptedVotes (ballots s_two_votes 0) 0 = Ciphertext 0 {This}"
  "encryptedVotes (ballots s_two_votes 0) 1 = Ciphertext 1 {This, Account 2}"
  "encryptedVotes (ballots s_two_votes 0) 2 = Ciphertext 1 {This, Account 4}"
  by (simp_all add: s_two_votes_eq s_voted_facts)

lemma s_partial_eq:
  "s_partial = s_two_votes
     \<lparr>ballots := (ballots s_two_votes)(0 := (ballots s_two_votes 0)
          \<lparr>finalResults := (finalResults (ballots s_two_votes 0))(0 := 0, 1 := 1, 2 := 0),
           resultsRevealed := True\<rparr>),
      events := events s_two_votes @ [ResultsRevealed 0 [0, 1, 0]]\<rparr>"
proof -
  have "s_partial = apply_tx accept_all s_two_votes tx_reveal_partial"
    by (simp add: s_partial_def s_two_votes_def)
  then show ?thesis
    by (simp add: tx_reveal_partial_def apply_tx_def setResults_eq s_two_votes_facts at_time_def)
qed

lemma s_partial_step:
  "setResults (at_time 3 3600) 0 [0, 1, 0] s_two_votes = Inr s_partial"
  by (simp add: s_partial_eq setResults_eq s_two_votes_facts at_time_def)

lemma s_partial_facts:
  "ballotCounter s_partial = 1"
  "resultsRevealed (ballots s_partial 0)"
  "candidates (ballots s_partial 0) = [''Alice'', ''Bob'', ''Charlie'']"
  "finalResults (ballots s_partial 0) 0 = 0"
  "finalResults (ballots s_partial 0) 1 = 1"
  "finalResults (ballots s_partial 0) 2 = 0"
  "totalVotes (ballots s_partial 0) = 2"
  by (simp_all add: s_partial_eq s_two_votes_facts)

lemma s_tallied_eq:
  "s_tallied = s_voted
     \<lparr>ballots := (ballots s_voted)(0 := (ballots s_voted 0)
          \<lparr>finalResults := (finalResults (ballots s_voted 0))(0 := 0, 1 := 1, 2 := 0),
           resultsRevealed := True\<rparr>),
      events := events s_voted @ [ResultsRevealed 0 [0, 1, 0]]\<rparr>"
proof -
  have "s_tallied = apply_tx accept_all s_voted tx_reveal_faithful"
    by (simp add: s_tallied_def s_voted_def)
  then show ?thesis
    by (simp add: tx_reveal_faithful_def apply_tx_def setResults_eq s_voted_facts at_time_def)
qed

lemma s_tallied_facts:
  "ballotCounter s_tallied = 1"
  "resultsRevealed (ballots s_tallied 0)"
  "candidates (ballots s_tallied 0) = [''Alice'', ''Bob'', ''Charlie'']"
  "finalResults (ballots s_tallied 0) 0 = 0"
  "finalResults (ballots s_tallied 0) 1 = 1"
  "finalResults (ballots s_tallied 0) 2 = 0"
  "totalVotes (ballots s_tallied 0) = 1"
  "encryptedVotes (ballots s_tallied 0) 0 = Ciphertext 0 {This}"
  "encryptedVotes (ballots s_tallied 0) 1 = Ciphertext 1 {This, Account 2}"
  "encryptedVotes (ballots s_tallied 0) 2 = Ciphertext 0 {This}"
  "events s_tallied = [BallotCreated 0 ''Election'' 1 3600, VoteCast 0 2, ResultsRevealed 0 [0, 1, 0]]"
  by (simp_all add: s_tallied_eq s_voted_facts s_voted_eq s_created_facts)

lemma s_tallied_step:
  "setResults (at_time 3 3600) 0 [0, 1, 0] s_voted = Inr s_tallied"
  by (simp add: s_tallied_eq setResults_eq s_voted_facts at_time_def)

lemma s_tallied_task:
  "reveal_results (\<lambda>h. Some (ucast (FHE_plain h))) (at_time 3 3600) 0 s_voted = Inr s_tallied"
proof -
  have "decrypt_counts (\<lambda>h. Some (ucast (FHE_plain h))) s_voted 0 3 = Inr [0, 1, 0]"
    by (subst decrypt_loop)
       (simp_all add: s_voted_facts decrypted_or_zero_def numeral_3_eq_3)
  then show ?thesis
    using s_tallied_step
    by (simp add: reveal_results_def getBallotInfo_def modifier_defs s_voted_facts numeral_3_eq_3 Let_def)
qed

section \<open>The claims\<close>

subsection \<open>C1: the revealed tally and totalVotes\<close>

text \<open>
  C1 says that in every reachable state every revealed ballot has
  \<open>sum finalResults = totalVotes\<close>. The contract never compares the two:
  \<^verbatim>\<open>setResults\<close> stores whatever array its caller supplies. In the state reached by
  creating a three-candidate ballot and committing \<open>[5, 7, 0]\<close> after its end time, the
  results sum to 12 while \<open>totalVotes\<close> is 0.
\<close>

theorem sum_equals_totalVotes_counterexample:
  "s_revealed = run accept_all deployed [tx_create, tx_reveal] \<and>
   resultsRevealed (ballots s_revealed 0) \<and>
   getResults s_revealed 0 = Inr [5, 7, 0] \<and>
   totalVotes (ballots s_revealed 0) = 0 \<and>
   sum_list (map (\<lambda>i. unat (finalResults (ballots s_revealed 0) (of_nat i)))
     [0..<length (candidates (ballots s_revealed 0))]) = 12 \<and>
   sum_list (map (\<lambda>i. unat (finalResults (ballots s_revealed 0) (of_nat i)))
     [0..<length (candidates (ballots s_revealed 0))]) \<noteq> unat (totalVotes (ballots s_revealed 0))"
proof -
  have "getResults s_revealed 0 = Inr [5, 7, 0]"
    by (simp add: getResults_eq s_revealed_facts)
  then show ?thesis
    using s_revealed_def by (simp add: s_revealed_facts)
qed

text \<open>
  C1, amended. In every reachable state, every ballot \<open>b\<close> with
  \<open>resultsRevealed\<close> has exactly one \<^verbatim>\<open>ResultsRevealed\<close> event in the log, and
  \<^verbatim>\<open>getResults(b)\<close> returns that event's array, one entry per candidate, each reduced
  modulo \<open>2^32\<close>. If the committed array holds, for every candidate, the plaintext
  of that candidate's encrypted counter, and \<open>totalVotes < 2^32\<close> (so that no
  32-bit counter has wrapped), then the sum of \<open>finalResults\<close> over the candidate
  indices equals \<open>totalVotes\<close>. The contract does not enforce the condition.
\<close>

theorem revealed_sum_is_totalVotes_when_faithful:
  "resultsRevealed (ballots (run fhe deployed txs) b) \<Longrightarrow>
     (\<exists>rs. revealEvents (events (run fhe deployed txs)) b = [rs] \<and>
           length rs = length (candidates (ballots (run fhe deployed txs) b)) \<and>
           getResults (run fhe deployed txs) b = Inr (map (\<lambda>r. ucast (ucast r :: uint32)) rs) \<and>
           sum_list (map (\<lambda>i. unat (finalResults (ballots (run fhe deployed txs) b) (of_nat i)))
                      [0..<length (candidates (ballots (run fhe deployed txs) b))])
             = sum_list (map (\<lambda>r. unat r mod 2 ^ 32) rs) \<and>
           ((\<forall>i < length rs.
               rs ! i = ucast (FHE_plain (encryptedVotes (ballots (run fhe deployed txs) b) (of_nat i)))) \<and>
            unat (totalVotes (ballots (run fhe deployed txs) b)) < 2 ^ 32 \<longrightarrow>
              sum_list (map (\<lambda>i. unat (finalResults (ballots (run fhe deployed txs) b) (of_nat i)))
                         [0..<length (candidates (ballots (run fhe deployed txs) b))])
                = unat (totalVotes (ballots (run fhe deployed txs) b))))"
proof -
  define s where "s = run fhe deployed txs"
  assume "resultsRevealed (ballots (run fhe deployed txs) b)"
  then have rev: "resultsRevealed (ballots s b)" by (simp add: s_def)
  have "wf s" "reveal_inv s" "tally_inv s"
    unfolding s_def by (rule wf_reachable, rule reveal_inv_reachable, rule tally_inv_reachable)
  have b: "b < ballotCounter s"
  proof (rule ccontr)
    assume "\<not> b < ballotCounter s"
    then have "ballots s b = empty_ballot" using \<open>wf s\<close> by (simp add: wf_def)
    then show False using rev by (simp add: empty_ballot_def)
  qed
  from \<open>reveal_inv s\<close> rev obtain rs where
    rs: "revealEvents (events s) b = [rs]" "length rs = length (candidates (ballots s b))"
      "\<forall>i < length rs. finalResults (ballots s b) (of_nat i) = ucast (rs ! i)"
    unfolding reveal_inv_def by (metis (full_types))
  have stored: "map (\<lambda>i. finalResults (ballots s b) (of_nat i)) [0..<length rs] = map ucast rs"
    by (rule nth_equalityI) (simp_all add: rs(3))
  have "getResults s b
        = Inr (map ucast (map (\<lambda>i. finalResults (ballots s b) (of_nat i)) [0..<length rs]))"
    using b rev by (simp add: getResults_eq rs(2))
  then have get: "getResults s b = Inr (map (\<lambda>r. ucast (ucast r :: uint32)) rs)"
    by (simp add: stored)
  have "sum_list (map (\<lambda>i. unat (finalResults (ballots s b) (of_nat i))) [0..<length rs])
        = sum_list (map unat (map (\<lambda>i. finalResults (ballots s b) (of_nat i)) [0..<length rs]))"
    by (simp add: comp_def)
  also have "\<dots> = sum_list (map (\<lambda>r. unat r mod 2 ^ 32) rs)"
    by (simp add: stored comp_def unat_to_uint32)
  finally have committed:
    "sum_list (map (\<lambda>i. unat (finalResults (ballots s b) (of_nat i)))
        [0..<length (candidates (ballots s b))]) = sum_list (map (\<lambda>r. unat r mod 2 ^ 32) rs)"
    by (simp add: rs(2))
  have faithful:
    "sum_list (map (\<lambda>i. unat (finalResults (ballots s b) (of_nat i)))
        [0..<length (candidates (ballots s b))]) = unat (totalVotes (ballots s b))"
    if f: "(\<forall>i < length rs. rs ! i = ucast (FHE_plain (encryptedVotes (ballots s b) (of_nat i)))) \<and>
           unat (totalVotes (ballots s b)) < 2 ^ 32"
  proof -
    have "finalResults (ballots s b) (of_nat i) = FHE_plain (encryptedVotes (ballots s b) (of_nat i))"
      if "i < length (candidates (ballots s b))" for i
      using that rs(2,3) f by (simp add: uint32_via_uint256)
    then have "map (\<lambda>i. unat (finalResults (ballots s b) (of_nat i)))
                 [0..<length (candidates (ballots s b))]
               = map (\<lambda>i. unat (FHE_plain (encryptedVotes (ballots s b) (of_nat i))))
                 [0..<length (candidates (ballots s b))]"
      by (intro map_cong) simp_all
    then have "sum_list (map (\<lambda>i. unat (finalResults (ballots s b) (of_nat i)))
                 [0..<length (candidates (ballots s b))]) = counters_sum (ballots s b)"
      unfolding counters_sum_def by (rule arg_cong)
    also have "\<dots> = unat (totalVotes (ballots s b))"
      using \<open>tally_inv s\<close> b f by (simp add: tally_inv_def)
    finally show ?thesis .
  qed
  show ?thesis
    unfolding s_def [symmetric]
    using rs(1,2) get committed faithful by blast
qed

theorem revealed_sum_is_totalVotes_when_faithful_witness:
  "reveal_results (\<lambda>h. Some (ucast (FHE_plain h))) (at_time 3 3600) 0 s_voted = Inr s_tallied \<and>
   resultsRevealed (ballots (run accept_all deployed [tx_create, tx_vote, tx_reveal_faithful]) 0) \<and>
   revealEvents (events s_tallied) 0 = [[0, 1, 0]] \<and>
   [0, 1, 0] ! 0 = (ucast (FHE_plain (encryptedVotes (ballots s_tallied 0) 0)) :: uint256) \<and>
   [0, 1, 0] ! 1 = (ucast (FHE_plain (encryptedVotes (ballots s_tallied 0) 1)) :: uint256) \<and>
   [0, 1, 0] ! 2 = (ucast (FHE_plain (encryptedVotes (ballots s_tallied 0) 2)) :: uint256) \<and>
   unat (totalVotes (ballots s_tallied 0)) < 2 ^ 32 \<and>
   getResults s_tallied 0 = Inr [0, 1, 0] \<and>
   sum_list (map (\<lambda>i. unat (finalResults (ballots s_tallied 0) (of_nat i)))
               [0..<length (candidates (ballots s_tallied 0))]) = 1 \<and>
   unat (totalVotes (ballots s_tallied 0)) = 1"
proof -
  have r: "resultsRevealed (ballots (run accept_all deployed [tx_create, tx_vote, tx_reveal_faithful]) 0)"
    using s_tallied_facts(2) by (simp add: s_tallied_def)
  have ev: "revealEvents (events s_tallied) 0 = [[0, 1, 0]]" by (simp add: s_tallied_facts)
  have f: "\<forall>i < length [0, 1, 0 :: uint256].
             [0, 1, 0] ! i = (ucast (FHE_plain (encryptedVotes (ballots s_tallied 0) (of_nat i))) :: uint256)"
    by (simp add: less_Suc_eq s_tallied_facts all_conj_distrib)
  have small: "unat (totalVotes (ballots s_tallied 0)) < 2 ^ 32" by (simp add: s_tallied_facts)
  from revealed_sum_is_totalVotes_when_faithful [OF r] obtain rs where
    rs: "revealEvents (events s_tallied) 0 = [rs]"
      "getResults s_tallied 0 = Inr (map (\<lambda>r. ucast (ucast r :: uint32)) rs)"
      "(\<forall>i < length rs.
          rs ! i = ucast (FHE_plain (encryptedVotes (ballots s_tallied 0) (of_nat i)))) \<and>
        unat (totalVotes (ballots s_tallied 0)) < 2 ^ 32 \<longrightarrow>
          sum_list (map (\<lambda>i. unat (finalResults (ballots s_tallied 0) (of_nat i)))
                     [0..<length (candidates (ballots s_tallied 0))])
            = unat (totalVotes (ballots s_tallied 0))"
    unfolding s_tallied_def [symmetric] by blast
  have eq: "rs = [0, 1, 0]" using rs(1) ev by simp
  have sum: "sum_list (map (\<lambda>i. unat (finalResults (ballots s_tallied 0) (of_nat i)))
                     [0..<length (candidates (ballots s_tallied 0))])
            = unat (totalVotes (ballots s_tallied 0))"
    using rs(3) f small unfolding eq by blast
  have tv: "unat (totalVotes (ballots s_tallied 0)) = 1" by (simp add: s_tallied_facts)
  have get: "getResults s_tallied 0 = Inr [0, 1, 0]" using rs(2) by (simp add: eq)
  show ?thesis
    using r ev small get sum tv s_tallied_task by (simp add: s_tallied_facts)
qed

subsection \<open>C2: one vote per address\<close>

text \<open>
  C2 says that every attempt after an accepted vote fails with DuplicateVoteError
  ("Already voted"). The modifier \<^verbatim>\<open>ballotActive\<close> runs before
  \<^verbatim>\<open>hasNotVoted\<close>: once the end time has passed, the repeated vote is rejected
  with "Ballot has ended" instead.
\<close>

theorem duplicate_vote_counterexample:
  "vote (at_time 2 10) 0 1 s_created = Inr s_voted \<and>
   hasVoted (ballots s_voted 0) 2 \<and>
   vote (at_time 2 3600) 0 1 s_voted = Inl (Revert ''Ballot has ended'') \<and>
   vote (at_time 2 3600) 0 1 s_voted \<noteq> Inl DuplicateVoteError"
  using s_voted_step
  by (simp add: vote_after_voting s_voted_facts at_time_def)

text \<open>
  C2, amended. After a \<^verbatim>\<open>vote\<close> or \<^verbatim>\<open>voteEncrypted\<close> call by \<open>v\<close> on
  \<open>b\<close> was accepted, every later \<^verbatim>\<open>vote\<close> or \<^verbatim>\<open>voteEncrypted\<close> call by
  \<open>v\<close> on \<open>b\<close>, in any state reached from there, fails: with DuplicateVoteError
  while \<open>now < endTime\<close>, and with "Ballot has ended" from \<open>endTime\<close> on. The
  failed transaction leaves the whole contract state, \<open>totalVotes\<close> included,
  unchanged. So at most one vote of \<open>v\<close> on \<open>b\<close> is ever accepted.
\<close>

theorem one_vote_per_address:
  "vote e b idx s = Inr s1 \<or> voteEncrypted fhe e b x p s = Inr s1 \<Longrightarrow>
   msg_sender e' = msg_sender e \<Longrightarrow>
     vote e' b idx' (run fhe s1 txs) =
       (if block_timestamp e' < endTime (ballots s b) then Inl DuplicateVoteError
        else Inl (Revert ''Ballot has ended'')) \<and>
     voteEncrypted fhe e' b x' p' (run fhe s1 txs) =
       (if block_timestamp e' < endTime (ballots s b) then Inl DuplicateVoteError
        else Inl (Revert ''Ballot has ended'')) \<and>
     apply_tx fhe (run fhe s1 txs) (e', Vote b idx') = run fhe s1 txs \<and>
     apply_tx fhe (run fhe s1 txs) (e', VoteEncrypted b x' p') = run fhe s1 txs"
proof -
  assume accepted: "vote e b idx s = Inr s1 \<or> voteEncrypted fhe e b x p s = Inr s1"
    and same: "msg_sender e' = msg_sender e"
  have s1: "b < ballotCounter s1 \<and> isActive (ballots s1 b) \<and>
            hasVoted (ballots s1 b) (msg_sender e) \<and>
            endTime (ballots s1 b) = endTime (ballots s b)"
    using accepted
  proof
    assume v: "vote e b idx s = Inr s1"
    show ?thesis using vote_Inr(1,2) [OF v] by (simp add: vote_Inr(7) [OF v])
  next
    assume v: "voteEncrypted fhe e b x p s = Inr s1"
    show ?thesis using voteEncrypted_Inr(1,2) [OF v] by (simp add: voteEncrypted_Inr(7) [OF v])
  qed
  define s2 where "s2 = run fhe s1 txs"
  from s1 have "b < ballotCounter s1" by simp
  from run_frame [OF this, of fhe txs] s1 run_hasVoted_mono [of s1 b "msg_sender e" fhe txs]
  have s2: "b < ballotCounter s2" "isActive (ballots s2 b)"
    "hasVoted (ballots s2 b) (msg_sender e')" "endTime (ballots s2 b) = endTime (ballots s b)"
    by (simp_all add: s2_def same)
  have "vote e' b idx' s2 =
       (if block_timestamp e' < endTime (ballots s b) then Inl DuplicateVoteError
        else Inl (Revert ''Ballot has ended''))"
    "voteEncrypted fhe e' b x' p' s2 =
       (if block_timestamp e' < endTime (ballots s b) then Inl DuplicateVoteError
        else Inl (Revert ''Ballot has ended''))"
    using vote_after_voting [OF s2(1,2,3)] by (simp_all add: s2(4))
  then show ?thesis unfolding s2_def by (simp add: apply_tx_def)
qed

theorem one_vote_per_address_witness:
  "vote (at_time 2 10) 0 1 s_created = Inr s_voted \<and>
   msg_sender (at_time 2 20) = msg_sender (at_time 2 10) \<and>
   vote (at_time 2 20) 0 0 s_voted = Inl DuplicateVoteError \<and>
   voteEncrypted accept_all (at_time 2 20) 0 2 [] s_voted = Inl DuplicateVoteError \<and>
   apply_tx accept_all s_voted (at_time 2 20, Vote 0 0) = s_voted \<and>
   totalVotes (ballots (apply_tx accept_all s_voted (at_time 2 20, Vote 0 0)) 0) = 1"
proof -
  have same: "msg_sender (at_time 2 20) = msg_sender (at_time 2 10)" by (simp add: at_time_def)
  from one_vote_per_address [OF disjI1 [OF s_voted_step] same,
      where txs = "[]" and idx' = 0 and x' = 2 and p' = "[]" and fhe = accept_all]
  show ?thesis using s_voted_step same
    by (simp add: s_created_facts s_voted_facts at_time_def)
qed

subsection \<open>C3: revealing exactly once, after the end\<close>

text \<open>
  C3. For every existing ballot \<open>b\<close>: \<^verbatim>\<open>setResults\<close> called while
  \<open>now < endTime\<close> fails with StillActiveError. After one successful
  \<^verbatim>\<open>setResults\<close>, every further \<^verbatim>\<open>setResults\<close> on \<open>b\<close>, in any state
  reached from there and at any block time not before the successful call's, fails with
  AlreadyRevealedError, and \<open>finalResults\<close> and \<open>resultsRevealed\<close> stay as
  committed. A transaction turns \<open>resultsRevealed\<close> from false to true only if it is
  a \<^verbatim>\<open>setResults\<close> on \<open>b\<close> with \<open>now \<ge> endTime\<close>; with the flag never
  falling back, that happens once per ballot.
\<close>

theorem reveal_exactly_once:
  "b < ballotCounter s \<Longrightarrow>
     (block_timestamp e < endTime (ballots s b) \<longrightarrow> setResults e b rs s = Inl StillActiveError) \<and>
     (setResults e b rs s = Inr s1 \<longrightarrow>
        endTime (ballots s b) \<le> block_timestamp e \<and>
        \<not> resultsRevealed (ballots s b) \<and> resultsRevealed (ballots s1 b) \<and>
        (\<forall>txs e' rs'. block_timestamp e \<le> block_timestamp e' \<longrightarrow>
            setResults e' b rs' (run fhe s1 txs) = Inl AlreadyRevealedError \<and>
            apply_tx fhe (run fhe s1 txs) (e', SetResults b rs') = run fhe s1 txs \<and>
            resultsRevealed (ballots (run fhe s1 txs) b) \<and>
            finalResults (ballots (run fhe s1 txs) b) = finalResults (ballots s1 b))) \<and>
     (\<forall>tx. \<not> resultsRevealed (ballots s b) \<and> resultsRevealed (ballots (apply_tx fhe s tx) b) \<longrightarrow>
        endTime (ballots s b) \<le> block_timestamp (fst tx) \<and> (\<exists>rs'. snd tx = SetResults b rs'))"
proof -
  assume b: "b < ballotCounter s"
  have early: "setResults e b rs s = Inl StillActiveError"
    if "block_timestamp e < endTime (ballots s b)"
    using that b by (simp add: setResults_eq not_le)
  have once: "endTime (ballots s b) \<le> block_timestamp e \<and>
        \<not> resultsRevealed (ballots s b) \<and> resultsRevealed (ballots s1 b) \<and>
        (\<forall>txs e' rs'. block_timestamp e \<le> block_timestamp e' \<longrightarrow>
            setResults e' b rs' (run fhe s1 txs) = Inl AlreadyRevealedError \<and>
            apply_tx fhe (run fhe s1 txs) (e', SetResults b rs') = run fhe s1 txs \<and>
            resultsRevealed (ballots (run fhe s1 txs) b) \<and>
            finalResults (ballots (run fhe s1 txs) b) = finalResults (ballots s1 b))"
    if ok: "setResults e b rs s = Inr s1"
  proof -
    note facts = setResults_Inr [OF ok]
    have s1: "b < ballotCounter s1" "resultsRevealed (ballots s1 b)"
      "endTime (ballots s1 b) = endTime (ballots s b)"
      using facts(1) by (simp_all add: facts(5))
    have later: "setResults e' b rs' (run fhe s1 txs) = Inl AlreadyRevealedError \<and>
            apply_tx fhe (run fhe s1 txs) (e', SetResults b rs') = run fhe s1 txs \<and>
            resultsRevealed (ballots (run fhe s1 txs) b) \<and>
            finalResults (ballots (run fhe s1 txs) b) = finalResults (ballots s1 b)"
      if t: "block_timestamp e \<le> block_timestamp e'" for txs e' rs'
    proof -
      from run_frame [OF s1(1), of fhe txs] s1(2,3)
      have r: "b < ballotCounter (run fhe s1 txs)"
        "endTime (ballots (run fhe s1 txs) b) = endTime (ballots s b)"
        "resultsRevealed (ballots (run fhe s1 txs) b)"
        "finalResults (ballots (run fhe s1 txs) b) = finalResults (ballots s1 b)"
        by simp_all
      have "endTime (ballots s b) \<le> block_timestamp e'" using facts(2) t by simp
      then have "setResults e' b rs' (run fhe s1 txs) = Inl AlreadyRevealedError"
        using r by (simp add: setResults_eq)
      then show ?thesis using r by (simp add: apply_tx_def)
    qed
    show ?thesis using facts(2,3) s1(2) later by blast
  qed
  show ?thesis using early once apply_tx_reveals [of s b fhe] by blast
qed

theorem reveal_exactly_once_witness:
  "(0 :: uint256) < ballotCounter s_created \<and>
   block_timestamp (at_time 3 10) < endTime (ballots s_created 0) \<and>
   setResults (at_time 3 10) 0 [5, 7, 0] s_created = Inl StillActiveError \<and>
   setResults (at_time 3 3600) 0 [5, 7, 0] s_created = Inr s_revealed \<and>
   block_timestamp (at_time 3 3600) \<le> block_timestamp (at_time 4 3700) \<and>
   setResults (at_time 4 3700) 0 [1, 1, 1] s_revealed = Inl AlreadyRevealedError \<and>
   apply_tx accept_all s_revealed (at_time 4 3700, SetResults 0 [1, 1, 1]) = s_revealed \<and>
   \<not> resultsRevealed (ballots s_created 0) \<and>
   resultsRevealed (ballots (apply_tx accept_all s_created tx_reveal) 0) \<and>
   endTime (ballots s_created 0) \<le> block_timestamp (fst tx_reveal)"
proof -
  have c: "(0 :: uint256) < ballotCounter s_created" by (simp add: s_created_facts)
  have pre: "block_timestamp (at_time 3 10) < endTime (ballots s_created 0)"
    by (simp add: s_created_facts at_time_def)
  have t: "block_timestamp (at_time 3 3600) \<le> block_timestamp (at_time 4 3700)"
    by (simp add: at_time_def)
  have nr: "\<not> resultsRevealed (ballots s_created 0)" by (simp add: s_created_facts)
  have r: "resultsRevealed (ballots (apply_tx accept_all s_created tx_reveal) 0)"
    using s_revealed_step by (simp add: apply_tx_def tx_reveal_def s_revealed_facts)
  note early_rule = reveal_exactly_once [OF c, where e = "at_time 3 10" and rs = "[5, 7, 0]"
         and ?s1.0 = s_revealed and fhe = accept_all]
  note once_rule = reveal_exactly_once [OF c, where e = "at_time 3 3600" and rs = "[5, 7, 0]"
         and ?s1.0 = s_revealed and fhe = accept_all]
  have early: "setResults (at_time 3 10) 0 [5, 7, 0] s_created = Inl StillActiveError"
    using early_rule pre by blast
  have "setResults (at_time 4 3700) 0 [1, 1, 1] (run accept_all s_revealed []) = Inl AlreadyRevealedError \<and>
        apply_tx accept_all (run accept_all s_revealed []) (at_time 4 3700, SetResults 0 [1, 1, 1])
          = run accept_all s_revealed []"
    using once_rule s_revealed_step t by blast
  then have later: "setResults (at_time 4 3700) 0 [1, 1, 1] s_revealed = Inl AlreadyRevealedError"
      "apply_tx accept_all s_revealed (at_time 4 3700, SetResults 0 [1, 1, 1]) = s_revealed"
    by simp_all
  have trans: "endTime (ballots s_created 0) \<le> block_timestamp (fst tx_reveal)"
    using once_rule nr r by blast
  show ?thesis
    using c pre early s_revealed_step t later nr r trans by blast
qed

subsection \<open>C4: anyone may commit the results\<close>

text \<open>
  C4 says that a well-formed reveal commit stores the supplied values. The storage
  slot is a \<^verbatim>\<open>uint32\<close>: a supplied count of \<open>2^32 + 5\<close> is stored, and read
  back, as 5.
\<close>

theorem setResults_stores_supplied_counterexample:
  "(0 :: uint256) < ballotCounter s_created \<and>
   endTime (ballots s_created 0) \<le> block_timestamp (at_time 3 3600) \<and>
   \<not> resultsRevealed (ballots s_created 0) \<and>
   length [4294967301, 7, 0 :: uint256] = length (candidates (ballots s_created 0)) \<and>
   setResults (at_time 3 3600) 0 [4294967301, 7, 0] s_created = Inr s_wide \<and>
   finalResults (ballots s_wide 0) 0 = 5 \<and>
   getResults s_wide 0 = Inr [5, 7, 0] \<and>
   getResults s_wide 0 \<noteq> Inr [4294967301, 7, 0]"
  using s_wide_step
  by (simp add: s_created_facts s_wide_facts getResults_eq at_time_def)

text \<open>
  C4, amended. \<^verbatim>\<open>setResults\<close> imposes no caller authorization. In every state, with
  the same arguments and block time, the outcome (the error or the resulting state) is the
  same for any two callers. In every reachable state, for an existing, ended, not yet
  revealed ballot and a results array with one entry per candidate, the call succeeds
  for every caller, sets \<open>resultsRevealed\<close> and stores each supplied value
  reduced modulo \<open>2^32\<close> (the value itself when it is below \<open>2^32\<close>). So any
  principal, not only the creator or a coordinator, can publish arbitrary results.
\<close>

theorem setResults_unauthenticated:
  "(\<forall>caller caller'.
      setResults \<lparr>msg_sender = caller, block_timestamp = t\<rparr> b rs s0 =
      setResults \<lparr>msg_sender = caller', block_timestamp = t\<rparr> b rs s0) \<and>
   (b < ballotCounter (run fhe deployed txs) \<and>
    endTime (ballots (run fhe deployed txs) b) \<le> t \<and>
    \<not> resultsRevealed (ballots (run fhe deployed txs) b) \<and>
    length rs = length (candidates (ballots (run fhe deployed txs) b)) \<longrightarrow>
     (\<exists>s'. (\<forall>caller. setResults \<lparr>msg_sender = caller, block_timestamp = t\<rparr> b rs
                        (run fhe deployed txs) = Inr s') \<and>
           resultsRevealed (ballots s' b) \<and>
           (\<forall>i < length rs. finalResults (ballots s' b) (of_nat i) = ucast (rs ! i) \<and>
                             unat (finalResults (ballots s' b) (of_nat i)) = unat (rs ! i) mod 2 ^ 32) \<and>
           getResults s' b = Inr (map (\<lambda>r. ucast (ucast r :: uint32)) rs)))"
proof -
  have same: "setResults \<lparr>msg_sender = caller, block_timestamp = t\<rparr> b rs s0 =
      setResults \<lparr>msg_sender = caller', block_timestamp = t\<rparr> b rs s0" for caller caller'
    by (simp add: setResults_eq)
  define s where "s = run fhe deployed txs"
  have commit: "\<exists>s'. (\<forall>caller. setResults \<lparr>msg_sender = caller, block_timestamp = t\<rparr> b rs s = Inr s') \<and>
           resultsRevealed (ballots s' b) \<and>
           (\<forall>i < length rs. finalResults (ballots s' b) (of_nat i) = ucast (rs ! i) \<and>
                             unat (finalResults (ballots s' b) (of_nat i)) = unat (rs ! i) mod 2 ^ 32) \<and>
           getResults s' b = Inr (map (\<lambda>r. ucast (ucast r :: uint32)) rs)"
    if hyp: "b < ballotCounter s \<and> endTime (ballots s b) \<le> t \<and>
          \<not> resultsRevealed (ballots s b) \<and> length rs = length (candidates (ballots s b))"
  proof -
    from hyp have pre: "b < ballotCounter s" "endTime (ballots s b) \<le> t"
      "\<not> resultsRevealed (ballots s b)" "length rs = length (candidates (ballots s b))"
      by simp_all
    define s' where
      "s' = s\<lparr>ballots := (ballots s)(b := (ballots s b)
                      \<lparr>finalResults := fold (\<lambda>i fr. fr(of_nat i := ucast (rs ! i)))
                                          [0..<length rs] (finalResults (ballots s b)),
                       resultsRevealed := True\<rparr>),
               events := events s @ [ResultsRevealed b rs]\<rparr>"
    have any: "setResults \<lparr>msg_sender = caller, block_timestamp = t\<rparr> b rs s = Inr s'" for caller
      using pre by (simp add: setResults_eq s'_def)
    have "wf s" unfolding s_def by (rule wf_reachable)
    then have len: "length rs \<le> 10" using pre(1,4) by (simp add: wf_def)
    have stored: "finalResults (ballots s' b) (of_nat i) = ucast (rs ! i)" if "i < length rs" for i
      using that len by (simp add: s'_def stored_results)
    have "getResults s' b
          = Inr (map (\<lambda>i. ucast (finalResults (ballots s' b) (of_nat i))) [0..<length rs])"
      using pre(1,4) by (simp add: getResults_eq s'_def)
    also have "map (\<lambda>i. ucast (finalResults (ballots s' b) (of_nat i))) [0..<length rs]
               = map (\<lambda>r. ucast (ucast r :: uint32)) rs"
      by (rule nth_equalityI) (simp_all add: stored)
    finally have get: "getResults s' b = Inr (map (\<lambda>r. ucast (ucast r :: uint32)) rs)" .
    have "resultsRevealed (ballots s' b)" by (simp add: s'_def)
    then show ?thesis
      using any stored get by (auto simp: unat_to_uint32)
  qed
  show ?thesis using same commit unfolding s_def by blast
qed

theorem setResults_unauthenticated_witness:
  "(0 :: uint256) < ballotCounter (run accept_all deployed [tx_create]) \<and>
   endTime (ballots (run accept_all deployed [tx_create]) 0) \<le> 3600 \<and>
   \<not> resultsRevealed (ballots (run accept_all deployed [tx_create]) 0) \<and>
   length [4294967301, 7, 0 :: uint256] = length (candidates (ballots (run accept_all deployed [tx_create]) 0)) \<and>
   setResults \<lparr>msg_sender = 3, block_timestamp = 3600\<rparr> 0 [4294967301, 7, 0] s_created = Inr s_wide \<and>
   setResults \<lparr>msg_sender = 99, block_timestamp = 3600\<rparr> 0 [4294967301, 7, 0] s_created = Inr s_wide \<and>
   unat (finalResults (ballots s_wide 0) 0) = 5 \<and>
   creator (ballots s_created 0) = 1 \<and>
   setResults \<lparr>msg_sender = 1, block_timestamp = 3600\<rparr> 0 [7] s_created
     = Inl (Revert ''Invalid results length'') \<and>
   setResults \<lparr>msg_sender = 99, block_timestamp = 3600\<rparr> 0 [7] s_created
     = Inl (Revert ''Invalid results length'') \<and>
   setResults \<lparr>msg_sender = 99, block_timestamp = 10\<rparr> 0 [5, 7, 0] s_created
     = setResults \<lparr>msg_sender = 1, block_timestamp = 10\<rparr> 0 [5, 7, 0] s_created"
proof -
  have pre: "(0 :: uint256) < ballotCounter (run accept_all deployed [tx_create]) \<and>
    endTime (ballots (run accept_all deployed [tx_create]) 0) \<le> 3600 \<and>
    \<not> resultsRevealed (ballots (run accept_all deployed [tx_create]) 0) \<and>
    length [4294967301, 7, 0 :: uint256]
       = length (candidates (ballots (run accept_all deployed [tx_create]) 0))"
    unfolding s_created_def [symmetric] by (simp add: s_created_facts)
  from setResults_unauthenticated [where b = 0 and t = 3600 and rs = "[4294967301, 7, 0]"
      and fhe = accept_all and txs = "[tx_create]"] pre
  obtain s' where
    s': "\<forall>caller. setResults \<lparr>msg_sender = caller, block_timestamp = 3600\<rparr> 0 [4294967301, 7, 0]
            s_created = Inr s'"
    unfolding s_created_def [symmetric] by blast
  have wide: "s' = s_wide" using s' [rule_format, of 3] s_wide_step by (simp add: at_time_def)
  have short: "setResults \<lparr>msg_sender = 1, block_timestamp = 3600\<rparr> 0 [7] s_created
     = Inl (Revert ''Invalid results length'')"
    by (simp add: setResults_eq s_created_facts)
  from setResults_unauthenticated [where b = 0 and t = 3600 and rs = "[7]" and ?s0.0 = s_created]
  have short': "setResults \<lparr>msg_sender = 99, block_timestamp = 3600\<rparr> 0 [7] s_created
     = setResults \<lparr>msg_sender = 1, block_timestamp = 3600\<rparr> 0 [7] s_created"
    by blast
  from setResults_unauthenticated [where b = 0 and t = 10 and rs = "[5, 7, 0]" and ?s0.0 = s_created]
  have early: "setResults \<lparr>msg_sender = 99, block_timestamp = 10\<rparr> 0 [5, 7, 0] s_created
     = setResults \<lparr>msg_sender = 1, block_timestamp = 10\<rparr> 0 [5, 7, 0] s_created"
    by blast
  show ?thesis
    using pre s' short short' early by (simp add: wide s_wide_facts s_created_facts)
qed

subsection \<open>C5: creating a ballot\<close>

text \<open>
  C5 says that \<^verbatim>\<open>createBallot\<close> succeeds whenever the candidate count is between
  2 and 10 and the duration is positive. The end time is computed with checked
  arithmetic: for \<open>durationMinutes = 2^255\<close> the product
  \<^verbatim>\<open>durationMinutes * 60\<close> overflows \<^verbatim>\<open>uint256\<close> and the call reverts with
  \<^verbatim>\<open>Panic(0x11)\<close>, which is neither success nor a ValidationError.
\<close>

theorem createBallot_succeeds_counterexample:
  "2 \<le> length [''Alice'', ''Bob''] \<and> length [''Alice'', ''Bob''] \<le> 10 \<and>
   (0 :: uint256) < 2 ^ 255 \<and>
   createBallot (at_time 1 0) ''Election'' [''Alice'', ''Bob''] (2 ^ 255) deployed = Inl (Panic 0x11) \<and>
   \<not> ValidationError (Panic 0x11) \<and>
   apply_tx accept_all deployed (at_time 1 0, CreateBallot ''Election'' [''Alice'', ''Bob''] (2 ^ 255))
     = deployed"
  by (simp add: createBallot_eq create_overflows_def ValidationError_def apply_tx_def)

text \<open>
  C5, amended. In every reachable state, \<^verbatim>\<open>createBallot\<close> fails with a
  ValidationError and changes no state whenever there are fewer than 2 or more than 10
  candidates or \<open>durationMinutes = 0\<close>. Otherwise, provided neither
  \<open>ballotCounter + 1\<close> nor \<open>now + durationMinutes * 60\<close> overflows
  \<^verbatim>\<open>uint256\<close>, it succeeds: it returns the prior \<open>ballotCounter\<close> as the id and
  increments the counter, stores title, candidates and creator, sets
  \<open>endTime = now + durationMinutes * 60\<close>, \<open>isActive = true\<close>,
  \<open>resultsRevealed = false\<close>, \<open>totalVotes = 0\<close>, initializes the encrypted counter
  of every candidate index to an encrypted zero the contract may decrypt, leaves every
  other ballot as it was and emits \<^verbatim>\<open>BallotCreated\<close>. When one of the two sums
  overflows, the call reverts with \<^verbatim>\<open>Panic(0x11)\<close>.
\<close>

theorem createBallot_validates:
  "(length cands < 2 \<or> 10 < length cands \<or> d = 0 \<longrightarrow>
      (\<exists>err. createBallot e ttl cands d (run fhe deployed txs) = Inl err \<and> ValidationError err) \<and>
      createBallot e ttl cands d (run fhe deployed txs) =
        Inl (Revert (if length cands < 2 then ''At least 2 candidates required''
                     else if 10 < length cands then ''Maximum 10 candidates allowed''
                     else ''Duration must be positive'')) \<and>
      apply_tx fhe (run fhe deployed txs) (e, CreateBallot ttl cands d) = run fhe deployed txs) \<and>
   (2 \<le> length cands \<and> length cands \<le> 10 \<and> 0 < d \<and>
    uint (ballotCounter (run fhe deployed txs)) + 1 < 2 ^ 256 \<and>
    uint (block_timestamp e) + uint d * 60 < 2 ^ 256 \<longrightarrow>
      (\<exists>s'. createBallot e ttl cands d (run fhe deployed txs)
               = Inr (ballotCounter (run fhe deployed txs), s') \<and>
            getTotalBallots s' = getTotalBallots (run fhe deployed txs) + 1 \<and>
            uint (ballotCounter s') = uint (ballotCounter (run fhe deployed txs)) + 1 \<and>
            title (ballots s' (ballotCounter (run fhe deployed txs))) = ttl \<and>
            candidates (ballots s' (ballotCounter (run fhe deployed txs))) = cands \<and>
            endTime (ballots s' (ballotCounter (run fhe deployed txs))) = block_timestamp e + d * 60 \<and>
            uint (endTime (ballots s' (ballotCounter (run fhe deployed txs))))
              = uint (block_timestamp e) + uint d * 60 \<and>
            isActive (ballots s' (ballotCounter (run fhe deployed txs))) \<and>
            \<not> resultsRevealed (ballots s' (ballotCounter (run fhe deployed txs))) \<and>
            creator (ballots s' (ballotCounter (run fhe deployed txs))) = msg_sender e \<and>
            totalVotes (ballots s' (ballotCounter (run fhe deployed txs))) = 0 \<and>
            (\<forall>i < length cands.
               encryptedVotes (ballots s' (ballotCounter (run fhe deployed txs))) (of_nat i)
                 = FHE_allowThis (FHE_asEuint32 0)) \<and>
            (\<forall>b. b \<noteq> ballotCounter (run fhe deployed txs) \<longrightarrow>
               ballots s' b = ballots (run fhe deployed txs) b) \<and>
            events s' = events (run fhe deployed txs) @
              [BallotCreated (ballotCounter (run fhe deployed txs)) ttl (msg_sender e)
                 (block_timestamp e + d * 60)])) \<and>
   (2 \<le> length cands \<and> length cands \<le> 10 \<and> 0 < d \<and>
    \<not> (uint (ballotCounter (run fhe deployed txs)) + 1 < 2 ^ 256 \<and>
       uint (block_timestamp e) + uint d * 60 < 2 ^ 256) \<longrightarrow>
      createBallot e ttl cands d (run fhe deployed txs) = Inl (Panic 0x11))"
proof -
  define s where "s = run fhe deployed txs"
  have "wf s" unfolding s_def by (rule wf_reachable)
  then have fresh: "ballots s (ballotCounter s) = empty_ballot" by (simp add: wf_def)
  have invalid: "(\<exists>err. createBallot e ttl cands d s = Inl err \<and> ValidationError err) \<and>
      createBallot e ttl cands d s =
        Inl (Revert (if length cands < 2 then ''At least 2 candidates required''
                     else if 10 < length cands then ''Maximum 10 candidates allowed''
                     else ''Duration must be positive'')) \<and>
      apply_tx fhe s (e, CreateBallot ttl cands d) = s"
    if "length cands < 2 \<or> 10 < length cands \<or> d = 0"
    using that by (auto simp: createBallot_eq ValidationError_def apply_tx_def)
  have mul: "uint d * 60 < 2 ^ 256" if "uint (block_timestamp e) + uint d * 60 < 2 ^ 256"
  proof -
    have "0 \<le> uint (block_timestamp e)" by simp
    then show ?thesis using that by linarith
  qed
  have valid: "\<exists>s'. createBallot e ttl cands d s = Inr (ballotCounter s, s') \<and>
            getTotalBallots s' = getTotalBallots s + 1 \<and>
            uint (ballotCounter s') = uint (ballotCounter s) + 1 \<and>
            title (ballots s' (ballotCounter s)) = ttl \<and>
            candidates (ballots s' (ballotCounter s)) = cands \<and>
            endTime (ballots s' (ballotCounter s)) = block_timestamp e + d * 60 \<and>
            uint (endTime (ballots s' (ballotCounter s))) = uint (block_timestamp e) + uint d * 60 \<and>
            isActive (ballots s' (ballotCounter s)) \<and>
            \<not> resultsRevealed (ballots s' (ballotCounter s)) \<and>
            creator (ballots s' (ballotCounter s)) = msg_sender e \<and>
            totalVotes (ballots s' (ballotCounter s)) = 0 \<and>
            (\<forall>i < length cands.
               encryptedVotes (ballots s' (ballotCounter s)) (of_nat i)
                 = FHE_allowThis (FHE_asEuint32 0)) \<and>
            (\<forall>b. b \<noteq> ballotCounter s \<longrightarrow> ballots s' b = ballots s b) \<and>
            events s' = events s @
              [BallotCreated (ballotCounter s) ttl (msg_sender e) (block_timestamp e + d * 60)]"
    if ok: "2 \<le> length cands \<and> length cands \<le> 10 \<and> 0 < d \<and>
            uint (ballotCounter s) + 1 < 2 ^ 256 \<and>
            uint (block_timestamp e) + uint d * 60 < 2 ^ 256"
  proof -
    have no: "\<not> create_overflows e d s" using ok mul by (simp add: create_overflows_def)
    have d: "d \<noteq> 0" using ok by auto
    have idx: "unat (of_nat i :: uint256) = i" if "i < length cands" for i
      using that ok by (intro unat_of_nat_256) simp
    have c: "uint (ballotCounter s + 1) = uint (ballotCounter s) + 1"
      using ok by (simp add: uint_word_ariths)
    have t: "uint (block_timestamp e + d * 60) = uint (block_timestamp e) + uint d * 60"
      using ok mul by (simp add: uint_word_ariths uint_times_60)
    show ?thesis
      using ok no d c t idx
      by (simp add: createBallot_eq created_ballot_def fresh empty_ballot_def getTotalBallots_def
          FHE_allowThis_def FHE_asEuint32_def)
  qed
  have panics: "createBallot e ttl cands d s = Inl (Panic 0x11)"
    if "2 \<le> length cands \<and> length cands \<le> 10 \<and> 0 < d \<and>
        \<not> (uint (ballotCounter s) + 1 < 2 ^ 256 \<and> uint (block_timestamp e) + uint d * 60 < 2 ^ 256)"
  proof -
    have "create_overflows e d s" using that by (auto simp: create_overflows_def)
    moreover have "d \<noteq> 0" using that by auto
    ultimately show ?thesis using that by (simp add: createBallot_eq)
  qed
  show ?thesis using invalid valid panics unfolding s_def by blast
qed

theorem createBallot_validates_witness:
  "length [''Alice''] < 2 \<and>
   createBallot (at_time 1 0) ''Election'' [''Alice''] 60 (run accept_all deployed [])
     = Inl (Revert ''At least 2 candidates required'') \<and>
   2 \<le> length [''Alice'', ''Bob'', ''Charlie''] \<and> length [''Alice'', ''Bob'', ''Charlie''] \<le> 10 \<and>
   (0 :: uint256) < 60 \<and>
   uint (ballotCounter (run accept_all deployed [])) + 1 < 2 ^ 256 \<and>
   uint (block_timestamp (at_time 1 0)) + uint (60 :: uint256) * 60 < 2 ^ 256 \<and>
   createBallot (at_time 1 0) ''Election'' [''Alice'', ''Bob'', ''Charlie''] 60
     (run accept_all deployed []) = Inr (0, s_created) \<and>
   endTime (ballots s_created 0) = 3600 \<and> ballotCounter s_created = 1 \<and>
   10 < length (replicate 11 ''X'') \<and>
   apply_tx accept_all (run accept_all deployed [])
     (at_time 1 0, CreateBallot ''Election'' (replicate 11 ''X'') 60) = run accept_all deployed [] \<and>
   (0 :: uint256) < 2 ^ 255 \<and>
   \<not> uint (block_timestamp (at_time 1 0)) + uint (2 ^ 255 :: uint256) * 60 < 2 ^ 256 \<and>
   createBallot (at_time 1 0) ''Election'' [''Alice'', ''Bob'', ''Charlie''] (2 ^ 255)
     (run accept_all deployed []) = Inl (Panic 0x11)"
proof -
  note rule = createBallot_validates [where fhe = accept_all and txs = "[]" and e = "at_time 1 0"
      and ttl = "''Election''" and d = 60]
  have one: "length [''Alice''] < 2" by simp
  from rule [where cands = "[''Alice'']"] one
  have few: "createBallot (at_time 1 0) ''Election'' [''Alice''] 60 (run accept_all deployed [])
     = Inl (Revert ''At least 2 candidates required'')"
    by simp
  have eleven: "10 < length (replicate 11 ''X'')" by simp
  from rule [where cands = "replicate 11 ''X''"] eleven
  have many: "apply_tx accept_all (run accept_all deployed [])
     (at_time 1 0, CreateBallot ''Election'' (replicate 11 ''X'') 60) = run accept_all deployed []"
    by blast
  have pre: "2 \<le> length [''Alice'', ''Bob'', ''Charlie''] \<and> length [''Alice'', ''Bob'', ''Charlie''] \<le> 10 \<and>
   (0 :: uint256) < 60 \<and>
   uint (ballotCounter (run accept_all deployed [])) + 1 < 2 ^ 256 \<and>
   uint (block_timestamp (at_time 1 0)) + uint (60 :: uint256) * 60 < 2 ^ 256"
    by (simp add: deployed_def at_time_def)
  from rule [where cands = "[''Alice'', ''Bob'', ''Charlie'']"] pre
  obtain s' where s': "createBallot (at_time 1 0) ''Election'' [''Alice'', ''Bob'', ''Charlie''] 60
     (run accept_all deployed []) = Inr (ballotCounter (run accept_all deployed []), s')"
    by blast
  have "apply_tx accept_all deployed tx_create = s'"
    using s' by (simp add: apply_tx_def tx_create_def)
  then have "s' = s_created" by (simp add: s_created_def)
  then have ok: "createBallot (at_time 1 0) ''Election'' [''Alice'', ''Bob'', ''Charlie''] 60
     (run accept_all deployed []) = Inr (0, s_created)"
    using s' by (simp add: deployed_def)
  have big: "(0 :: uint256) < 2 ^ 255"
    "\<not> uint (block_timestamp (at_time 1 0)) + uint (2 ^ 255 :: uint256) * 60 < 2 ^ 256"
    by (simp_all add: at_time_def)
  from createBallot_validates [where fhe = accept_all and txs = "[]" and e = "at_time 1 0"
      and ttl = "''Election''" and d = "2 ^ 255" and cands = "[''Alice'', ''Bob'', ''Charlie'']"]
    pre big
  have panic: "createBallot (at_time 1 0) ''Election'' [''Alice'', ''Bob'', ''Charlie''] (2 ^ 255)
     (run accept_all deployed []) = Inl (Panic 0x11)"
    by blast
  show ?thesis
    using one few pre ok eleven many big panic by (simp add: s_created_facts)
qed

subsection \<open>C6: active and ended ballots\<close>

text \<open>
  C6. In every reachable state and at every block time, \<^verbatim>\<open>getActiveBallots\<close>
  and \<^verbatim>\<open>getEndedBallots\<close> both return, the two lists have no id in common, together
  they hold exactly the ids below \<open>ballotCounter\<close>, and neither lists an id twice.
\<close>

theorem active_ended_partition:
  "\<exists>act en.
     getActiveBallots e (run fhe deployed txs) = Inr act \<and>
     getEndedBallots e (run fhe deployed txs) = Inr en \<and>
     set act \<inter> set en = {} \<and>
     set act \<union> set en = {b. b < ballotCounter (run fhe deployed txs)} \<and>
     distinct act \<and> distinct en"
proof -
  define s where "s = run fhe deployed txs"
  define n where "n = unat (ballotCounter s)"
  define act :: "uint256 list" where "act = map of_nat (filter (active_at e s) [0..<n])"
  define en :: "uint256 list" where "en = map of_nat (filter (ended_at e s) [0..<n])"
  have wf: "wf s" unfolding s_def by (rule wf_reachable)
  have inj: "inj_on (of_nat :: nat \<Rightarrow> uint256) {0..<n}"
    unfolding n_def by (rule inj_on_ids)
  have split: "active_at e s i = (\<not> ended_at e s i)" if "i < n" for i
  proof -
    have "of_nat i < ballotCounter s" using that unfolding n_def by (rule of_nat_below_counter)
    then have "isActive (ballots s (of_nat i))" using wf by (simp add: wf_def)
    then show ?thesis by (simp add: active_at_def ended_at_def not_le)
  qed
  have sets: "set act = of_nat ` {i \<in> {0..<n}. active_at e s i}"
    "set en = of_nat ` {i \<in> {0..<n}. ended_at e s i}"
    by (auto simp: act_def en_def)
  have disj: "set act \<inter> set en = {}"
  proof -
    have "{i \<in> {0..<n}. active_at e s i} \<inter> {i \<in> {0..<n}. ended_at e s i} = {}"
      using split by auto
    moreover have "set act \<inter> set en
        = of_nat ` ({i \<in> {0..<n}. active_at e s i} \<inter> {i \<in> {0..<n}. ended_at e s i})"
      unfolding sets by (rule inj_on_image_Int [OF inj, symmetric]) auto
    ultimately show ?thesis by simp
  qed
  have cover: "set act \<union> set en = {b. b < ballotCounter s}"
  proof -
    have "{i \<in> {0..<n}. active_at e s i} \<union> {i \<in> {0..<n}. ended_at e s i} = {0..<n}"
      using split by auto
    then have "set act \<union> set en = of_nat ` {0..<n}"
      unfolding sets by (simp add: image_Un [symmetric])
    then show ?thesis unfolding n_def by (simp add: ids_below_counter)
  qed
  have dist: "distinct act" "distinct en"
    unfolding act_def en_def
    by (auto simp: distinct_map intro: inj_on_subset [OF inj])
  have "getActiveBallots e s = Inr act" "getEndedBallots e s = Inr en"
    by (simp_all add: getActiveBallots_eq getEndedBallots_eq act_def en_def n_def)
  then show ?thesis using disj cover dist unfolding s_def by blast
qed

subsection \<open>C7: the confidential vote credits candidate 0\<close>

text \<open>
  C7. Every successful \<^verbatim>\<open>voteEncrypted\<close> call adds an encrypted 1 to the counter
  of candidate index 0 and leaves every other counter alone; the resulting state is the
  same for every encrypted index and proof that verify. \<open>hasVoted\<close>,
  \<open>totalVotes\<close> and the event log are updated exactly as a successful plaintext
  \<^verbatim>\<open>vote\<close> by the same caller updates them.
\<close>

theorem voteEncrypted_credits_first:
  "voteEncrypted fhe e b x p s = Inr s' \<Longrightarrow>
     encryptedVotes (ballots s' b) 0 =
       FHE_allow (FHE_allowThis (FHE_add (encryptedVotes (ballots s b) 0) (FHE_asEuint32 1)))
         (Account (msg_sender e)) \<and>
     FHE_plain (encryptedVotes (ballots s' b) 0) = FHE_plain (encryptedVotes (ballots s b) 0) + 1 \<and>
     (\<forall>k. k \<noteq> 0 \<longrightarrow> encryptedVotes (ballots s' b) k = encryptedVotes (ballots s b) k) \<and>
     (\<forall>x' p'. fhe x' p' \<noteq> None \<longrightarrow> voteEncrypted fhe e b x' p' s = Inr s') \<and>
     hasVoted (ballots s' b) = (hasVoted (ballots s b))(msg_sender e := True) \<and>
     totalVotes (ballots s' b) = totalVotes (ballots s b) + 1 \<and>
     (\<forall>idx s2. vote e b idx s = Inr s2 \<longrightarrow>
        hasVoted (ballots s2 b) = hasVoted (ballots s' b) \<and>
        totalVotes (ballots s2 b) = totalVotes (ballots s' b) \<and>
        events s2 = events s')"
proof -
  assume ok: "voteEncrypted fhe e b x p s = Inr s'"
  note s' = voteEncrypted_Inr(7) [OF ok]
  have same: "voteEncrypted fhe e b x' p' s = Inr s'" if "fhe x' p' \<noteq> None" for x' p'
    using ok that
    by (auto simp: voteEncrypted_def modifier_defs Let_def split: if_splits option.splits)
  have plain: "vote e b idx s = Inr s2 \<Longrightarrow>
        hasVoted (ballots s2 b) = hasVoted (ballots s' b) \<and>
        totalVotes (ballots s2 b) = totalVotes (ballots s' b) \<and> events s2 = events s'" for idx s2
    using vote_Inr(7) [of e b idx s s2] by (simp add: s')
  show ?thesis
    using same plain
    by (simp add: s' FHE_add_def FHE_asEuint32_def FHE_allowThis_def insert_commute)
qed

theorem voteEncrypted_credits_first_witness:
  "voteEncrypted accept_all (at_time 2 10) 0 2 [] s_created = Inr s_voted_encrypted \<and>
   accept_all 2 [] = Some 2 \<and>
   FHE_plain (encryptedVotes (ballots s_created 0) 0) = 0 \<and>
   FHE_plain (encryptedVotes (ballots s_voted_encrypted 0) 0) = 1 \<and>
   encryptedVotes (ballots s_voted_encrypted 0) 2 = encryptedVotes (ballots s_created 0) 2 \<and>
   hasVoted (ballots s_voted_encrypted 0) 2 \<and>
   totalVotes (ballots s_voted_encrypted 0) = 1 \<and>
   totalVotes (ballots s_voted 0) = totalVotes (ballots s_voted_encrypted 0)"
  using voteEncrypted_credits_first [OF s_voted_encrypted_step] s_voted_encrypted_step s_voted_step
  by (simp add: s_created_facts accept_all_def at_time_def FHE_add_def FHE_asEuint32_def
      FHE_allowThis_def)

subsection \<open>C8: reading the results\<close>

text \<open>
  C8. For every existing ballot \<open>b\<close>, \<^verbatim>\<open>getResults(b)\<close> fails with
  NotRevealedError ("Results not yet revealed") in every state where
  \<open>resultsRevealed\<close> is false; in every state where it is true the call succeeds
  and returns the stored \<open>finalResults\<close>, one entry per candidate.
\<close>

theorem getResults_gated:
  "b < ballotCounter s \<Longrightarrow>
     (\<not> resultsRevealed (ballots s b) \<longrightarrow> getResults s b = Inl NotRevealedError) \<and>
     (resultsRevealed (ballots s b) \<longrightarrow>
        (\<exists>rs. getResults s b = Inr rs \<and> length rs = length (candidates (ballots s b)) \<and>
              (\<forall>i < length rs. rs ! i = ucast (finalResults (ballots s b) (of_nat i)))))"
  by (simp add: getResults_eq)

theorem getResults_gated_witness:
  "(0 :: uint256) < ballotCounter s_created \<and> \<not> resultsRevealed (ballots s_created 0) \<and>
   getResults s_created 0 = Inl NotRevealedError \<and>
   (0 :: uint256) < ballotCounter s_revealed \<and> resultsRevealed (ballots s_revealed 0) \<and>
   getResults s_revealed 0 \<noteq> Inl NotRevealedError"
proof -
  have c: "(0 :: uint256) < ballotCounter s_created" and r: "(0 :: uint256) < ballotCounter s_revealed"
    by (simp_all add: s_created_facts s_revealed_facts)
  show ?thesis
    using getResults_gated [OF c] getResults_gated [OF r] c r
    by (auto simp: s_created_facts s_revealed_facts)
qed

subsection \<open>C9: a failed decryption counts as zero\<close>

text \<open>
  C9. For an existing ballot of a reachable state, the reveal task's decryption pass
  returns one count per candidate whatever the decryption requests do: a candidate
  whose request fails (or whose handle is the zero hash) gets 0, the others their
  decrypted value. The task then behaves exactly as \<^verbatim>\<open>setResults\<close> on that
  full-length array: when the ballot has ended and is not yet revealed it commits the
  array, so no decryption failure aborts the reveal. After the commit the ballot is
  revealed, the event carries the array, every entry is in \<open>finalResults\<close> (as
  \<^verbatim>\<open>uint32\<close>) and \<^verbatim>\<open>getResults\<close> returns it.
\<close>

theorem reveal_substitutes_zero:
  "b < ballotCounter (run fhe deployed txs) \<Longrightarrow>
     (\<exists>results.
        decrypt_counts dec (run fhe deployed txs) b
          (length (candidates (ballots (run fhe deployed txs) b))) = Inr results \<and>
        length results = length (candidates (ballots (run fhe deployed txs) b)) \<and>
        (\<forall>i < length results.
           (dec (encryptedVotes (ballots (run fhe deployed txs) b) (of_nat i)) = None
              \<longrightarrow> results ! i = 0) \<and>
           results ! i = decrypted_or_zero dec (encryptedVotes (ballots (run fhe deployed txs) b) (of_nat i))) \<and>
        reveal_results dec e b (run fhe deployed txs) = setResults e b results (run fhe deployed txs) \<and>
        (endTime (ballots (run fhe deployed txs) b) \<le> block_timestamp e \<and>
         \<not> resultsRevealed (ballots (run fhe deployed txs) b) \<longrightarrow>
           (\<exists>s'. reveal_results dec e b (run fhe deployed txs) = Inr s' \<and>
                 resultsRevealed (ballots s' b) \<and>
                 events s' = events (run fhe deployed txs) @ [ResultsRevealed b results] \<and>
                 (\<forall>i < length results.
                    finalResults (ballots s' b) (of_nat i) = ucast (results ! i)) \<and>
                 getResults s' b = Inr (map (\<lambda>r. ucast (ucast r :: uint32)) results))))"
proof -
  define s where "s = run fhe deployed txs"
  define n where "n = length (candidates (ballots s b))"
  define results where
    "results = map (\<lambda>i. decrypted_or_zero dec (encryptedVotes (ballots s b) (of_nat i))) [0..<n]"
  assume "b < ballotCounter (run fhe deployed txs)"
  then have b: "b < ballotCounter s" by (simp add: s_def)
  have "wf s" unfolding s_def by (rule wf_reachable)
  then have n: "n \<le> 10" using b by (simp add: wf_def n_def)
  have loop: "decrypt_counts dec s b n = Inr results"
    unfolding results_def using b n by (intro decrypt_loop) (simp_all add: n_def)
  have len: "length results = n" by (simp add: results_def)
  have entries: "(dec (encryptedVotes (ballots s b) (of_nat i)) = None \<longrightarrow> results ! i = 0) \<and>
      results ! i = decrypted_or_zero dec (encryptedVotes (ballots s b) (of_nat i))"
    if "i < length results" for i
    using that by (simp add: results_def decrypted_or_zero_def)
  have task: "reveal_results dec e b s = setResults e b results s"
    using b loop by (simp add: reveal_results_def getBallotInfo_def modifier_defs Let_def n_def)
  have commit: "\<exists>s'. reveal_results dec e b s = Inr s' \<and> resultsRevealed (ballots s' b) \<and>
                 events s' = events s @ [ResultsRevealed b results] \<and>
                 (\<forall>i < length results.
                    finalResults (ballots s' b) (of_nat i) = ucast (results ! i)) \<and>
                 getResults s' b = Inr (map (\<lambda>r. ucast (ucast r :: uint32)) results)"
    if pre: "endTime (ballots s b) \<le> block_timestamp e \<and> \<not> resultsRevealed (ballots s b)"
  proof -
    define s' where
      "s' = s\<lparr>ballots := (ballots s)(b := (ballots s b)
                    \<lparr>finalResults := fold (\<lambda>i fr. fr(of_nat i := ucast (results ! i)))
                                        [0..<length results] (finalResults (ballots s b)),
                     resultsRevealed := True\<rparr>),
               events := events s @ [ResultsRevealed b results]\<rparr>"
    have run: "reveal_results dec e b s = Inr s'"
      using pre b len by (simp add: task setResults_eq n_def s'_def)
    have stored: "finalResults (ballots s' b) (of_nat i) = ucast (results ! i)"
      if "i < length results" for i
    proof -
      have "length results \<le> 10" using n len by simp
      then show ?thesis using that by (simp add: s'_def stored_results)
    qed
    have "getResults s' b
          = Inr (map (\<lambda>i. ucast (finalResults (ballots s' b) (of_nat i))) [0..<length results])"
      using b len by (simp add: getResults_eq s'_def n_def)
    also have "map (\<lambda>i. ucast (finalResults (ballots s' b) (of_nat i))) [0..<length results]
               = map (\<lambda>r. ucast (ucast r :: uint32)) results"
      by (rule nth_equalityI) (simp_all add: stored)
    finally have get: "getResults s' b = Inr (map (\<lambda>r. ucast (ucast r :: uint32)) results)" .
    have "resultsRevealed (ballots s' b)" "events s' = events s @ [ResultsRevealed b results]"
      by (simp_all add: s'_def)
    then show ?thesis using run stored get by blast
  qed
  show ?thesis
    using loop len entries task commit unfolding s_def n_def by blast
qed

theorem reveal_substitutes_zero_witness:
  "(0 :: uint256) < ballotCounter (run accept_all deployed [tx_create, tx_vote, tx_vote_charlie]) \<and>
   lossy_decrypt (encryptedVotes (ballots s_two_votes 0) 1) = Some 1 \<and>
   lossy_decrypt (encryptedVotes (ballots s_two_votes 0) 2) = None \<and>
   FHE_plain (encryptedVotes (ballots s_two_votes 0) 2) = 1 \<and>
   endTime (ballots s_two_votes 0) \<le> block_timestamp (at_time 3 3600) \<and>
   \<not> resultsRevealed (ballots s_two_votes 0) \<and>
   decrypt_counts lossy_decrypt s_two_votes 0 3 = Inr [0, 1, 0] \<and>
   reveal_results lossy_decrypt (at_time 3 3600) 0 s_two_votes = Inr s_partial \<and>
   getResults s_partial 0 = Inr [0, 1, 0]"
proof -
  have c: "(0 :: uint256) < ballotCounter (run accept_all deployed [tx_create, tx_vote, tx_vote_charlie])"
    using s_two_votes_facts(1) by (simp add: s_two_votes_def)
  have pre: "endTime (ballots s_two_votes 0) \<le> block_timestamp (at_time 3 3600) \<and>
             \<not> resultsRevealed (ballots s_two_votes 0)"
    by (simp add: s_two_votes_facts at_time_def)
  from reveal_substitutes_zero [OF c, of lossy_decrypt "at_time 3 3600"] pre
  obtain results s' where
    r: "decrypt_counts lossy_decrypt s_two_votes 0 (length (candidates (ballots s_two_votes 0)))
          = Inr results"
      "length results = length (candidates (ballots s_two_votes 0))"
      "\<forall>i < length results.
         results ! i = decrypted_or_zero lossy_decrypt (encryptedVotes (ballots s_two_votes 0) (of_nat i))"
      "reveal_results lossy_decrypt (at_time 3 3600) 0 s_two_votes
         = setResults (at_time 3 3600) 0 results s_two_votes"
      "reveal_results lossy_decrypt (at_time 3 3600) 0 s_two_votes = Inr s'"
      "getResults s' 0 = Inr (map (\<lambda>r. ucast (ucast r :: uint32)) results)"
    unfolding s_two_votes_def [symmetric] by blast
  have len: "length results = 3" using r(2) by (simp add: s_two_votes_facts)
  have "results ! 0 = 0" "results ! 1 = 1" "results ! 2 = 0"
    using r(3) len by (simp_all add: s_two_votes_facts decrypted_or_zero_def lossy_decrypt_def)
  then have res: "results = [0, 1, 0]"
    using len by (intro nth_equalityI) (auto simp: less_Suc_eq numeral_3_eq_3 numeral_2_eq_2)
  have s': "s' = s_partial" using r(4,5) s_partial_step by (simp add: res)
  show ?thesis
    using c pre r(1,5,6)
    by (simp add: res s' s_two_votes_facts lossy_decrypt_def numeral_3_eq_3)
qed

subsection \<open>C10: committed counts are truncated to 32 bits\<close>

text \<open>
  C10. A successful \<^verbatim>\<open>setResults\<close> on a reachable state appends a
  \<^verbatim>\<open>ResultsRevealed\<close> event carrying the supplied \<^verbatim>\<open>uint256\<close> array unchanged
  and stores \<^verbatim>\<open>uint32(results[i])\<close>. From then on, in every later state,
  \<^verbatim>\<open>getResults\<close> returns \<open>results[i] mod 2^32\<close> for each candidate, which for
  every supplied count of at least \<open>2^32\<close> differs from the value in the event.
\<close>

theorem setResults_truncates:
  "setResults e b rs (run fhe deployed txs) = Inr s' \<Longrightarrow>
     events s' = events (run fhe deployed txs) @ [ResultsRevealed b rs] \<and>
     (\<forall>i < length rs. finalResults (ballots s' b) (of_nat i) = ucast (rs ! i)) \<and>
     (\<exists>out. (\<forall>txs'. getResults (run fhe s' txs') b = Inr out) \<and>
            length out = length rs \<and>
            (\<forall>i < length rs. unat (out ! i) = unat (rs ! i) mod 2 ^ 32 \<and>
                              (2 ^ 32 \<le> rs ! i \<longrightarrow> out ! i \<noteq> rs ! i)))"
proof -
  define s where "s = run fhe deployed txs"
  assume "setResults e b rs (run fhe deployed txs) = Inr s'"
  then have ok: "setResults e b rs s = Inr s'" by (simp add: s_def)
  note facts = setResults_Inr [OF ok]
  have "wf s" unfolding s_def by (rule wf_reachable)
  then have len: "length rs \<le> 10" using facts(1,4) by (simp add: wf_def)
  have stored: "finalResults (ballots s' b) (of_nat i) = ucast (rs ! i)" if "i < length rs" for i
    using that len by (simp add: facts(5) stored_results)
  have b': "b < ballotCounter s'" "resultsRevealed (ballots s' b)"
    "candidates (ballots s' b) = candidates (ballots s b)"
    using facts(1) by (simp_all add: facts(5))
  define out :: "uint256 list" where "out = map (\<lambda>r. ucast (ucast r :: uint32)) rs"
  have later: "getResults (run fhe s' txs') b = Inr out" for txs'
  proof -
    from run_frame [OF b'(1), of fhe txs'] b'(2)
    have "b < ballotCounter (run fhe s' txs')" "resultsRevealed (ballots (run fhe s' txs') b)"
      "candidates (ballots (run fhe s' txs') b) = candidates (ballots s' b)"
      "finalResults (ballots (run fhe s' txs') b) = finalResults (ballots s' b)"
      by simp_all
    then have "getResults (run fhe s' txs') b
        = Inr (map (\<lambda>i. ucast (finalResults (ballots s' b) (of_nat i))) [0..<length rs])"
      by (simp add: getResults_eq b'(3) facts(4))
    also have "map (\<lambda>i. ucast (finalResults (ballots s' b) (of_nat i))) [0..<length rs] = out"
      unfolding out_def by (rule nth_equalityI) (simp_all add: stored)
    finally show ?thesis .
  qed
  have trunc: "unat (out ! i) = unat (rs ! i) mod 2 ^ 32 \<and> (2 ^ 32 \<le> rs ! i \<longrightarrow> out ! i \<noteq> rs ! i)"
    if "i < length rs" for i
  proof -
    have u: "unat (out ! i) = unat (rs ! i) mod 2 ^ 32"
      using that by (simp add: out_def unat_uint32_round_trip)
    have "out ! i \<noteq> rs ! i" if big: "2 ^ 32 \<le> rs ! i"
    proof
      assume "out ! i = rs ! i"
      then have "unat (rs ! i) = unat (rs ! i) mod 2 ^ 32" using u by simp
      moreover have "unat (rs ! i) mod 2 ^ 32 < 2 ^ 32" by simp
      moreover have "2 ^ 32 \<le> unat (rs ! i)" using big by (simp add: word_le_nat_alt)
      ultimately show False by linarith
    qed
    then show ?thesis using u by simp
  qed
  have "events s' = events s @ [ResultsRevealed b rs]" by (simp add: facts(5))
  moreover have "length out = length rs" by (simp add: out_def)
  ultimately show ?thesis using stored later trunc unfolding s_def by blast
qed

theorem setResults_truncates_witness:
  "setResults (at_time 3 3600) 0 [4294967301, 7, 0] (run accept_all deployed [tx_create]) = Inr s_wide \<and>
   events s_wide = [BallotCreated 0 ''Election'' 1 3600, ResultsRevealed 0 [4294967301, 7, 0]] \<and>
   finalResults (ballots s_wide 0) 0 = 5 \<and>
   getResults s_wide 0 = Inr [5, 7, 0] \<and> (2 ^ 32 :: uint256) \<le> 4294967301"
proof -
  have step: "setResults (at_time 3 3600) 0 [4294967301, 7, 0] (run accept_all deployed [tx_create])
                = Inr s_wide"
    using s_wide_step by (simp add: s_created_def)
  show ?thesis
    using setResults_truncates [OF step] step
    by (simp add: s_wide_facts getResults_eq)
qed

end
